theory Spec2Isabelle
  imports Main
begin

section \<open>Python strings\<close>

text \<open>
  A Python \<^verbatim>\<open>str\<close> is modelled as a \<^typ>\<open>string\<close>, each \<^typ>\<open>char\<close> standing for the code
  point of the same number, so the model covers the strings whose code points are below 256.
  In that range the decimal digits are the ASCII digits only.

  \<^verbatim>\<open>str.isspace\<close>, which decides what \<^verbatim>\<open>str.strip()\<close> removes, holds for the code points
  9 to 13, 28 to 31, 32, 133 and 160.
\<close>

definition py_isspace :: "char \<Rightarrow> bool" where
  "py_isspace c = (of_char c \<in> {9, 10, 11, 12, 13, 28, 29, 30, 31, 32, 133, 160 :: nat})"

text \<open>\<^verbatim>\<open>s.strip()\<close>: leading and trailing whitespace removed.\<close>

definition strip :: "string \<Rightarrow> string" where
  "strip s = rev (dropWhile py_isspace (rev (dropWhile py_isspace s)))"

text \<open>
  \<^verbatim>\<open>s.split(sep)\<close> for a one-character separator: a scan that closes the current piece at
  every separator; the result always has one piece more than there are separators.
\<close>

fun split_from :: "char \<Rightarrow> string \<Rightarrow> string \<Rightarrow> string list" where
  "split_from sep cur [] = [cur]"
| "split_from sep cur (c # cs) =
     (if c = sep then cur # split_from sep [] cs else split_from sep (cur @ [c]) cs)"

definition split :: "char \<Rightarrow> string \<Rightarrow> string list" where
  "split sep s = split_from sep [] s"

text \<open>\<^verbatim>\<open>sep.join(xs)\<close>.\<close>

fun join :: "string \<Rightarrow> string list \<Rightarrow> string" where
  "join sep [] = []"
| "join sep [x] = x"
| "join sep (x # y # ys) = x @ sep @ join sep (y # ys)"

section \<open>Python's \<^verbatim>\<open>int(str)\<close> and \<^verbatim>\<open>str(int)\<close>\<close>

definition is_digit :: "char \<Rightarrow> bool" where
  "is_digit c = (48 \<le> (of_char c :: nat) \<and> (of_char c :: nat) \<le> 57)"

definition digit_value :: "char \<Rightarrow> nat" where
  "digit_value c = of_char c - 48"

definition digit_char :: "nat \<Rightarrow> char" where
  "digit_char d = ''0123456789'' ! d"

text \<open>
  The whitespace \<^verbatim>\<open>int()\<close> skips around a literal. It is narrower than \<^const>\<open>py_isspace\<close>:
  the separators 28 to 31 are not skipped.
\<close>

definition int_isspace :: "char \<Rightarrow> bool" where
  "int_isspace c = (of_char c \<in> {9, 10, 11, 12, 13, 32, 133, 160 :: nat})"

text \<open>One optional sign; the flag says whether it was a minus.\<close>

definition take_sign :: "string \<Rightarrow> bool \<times> string" where
  "take_sign s =
     (case s of
        [] \<Rightarrow> (False, [])
      | c # r \<Rightarrow>
          if c = CHR ''+'' then (False, r)
          else if c = CHR ''-'' then (True, r)
          else (False, s))"

definition digit_or_underscore :: "char \<Rightarrow> bool" where
  "digit_or_underscore c = (is_digit c \<or> c = CHR ''_'')"

fun double_underscore :: "string \<Rightarrow> bool" where
  "double_underscore (a # b # r) =
     ((a = CHR ''_'' \<and> b = CHR ''_'') \<or> double_underscore (b # r))"
| "double_underscore _ = False"

definition digits_value :: "string \<Rightarrow> nat" where
  "digits_value ds = foldl (\<lambda>acc c. 10 * acc + digit_value c) 0 ds"

text \<open>
  \<^verbatim>\<open>int(s)\<close> in base 10, \<open>None\<close> when it raises \<^verbatim>\<open>ValueError\<close>. The literal is: whitespace, one
  optional sign, a non-empty run of digits in which single underscores may stand between
  digits, whitespace. The first argument is the interpreter's limit on the number of digits
  (\<^verbatim>\<open>sys.get_int_max_str_digits()\<close>: 0 for no limit, which is also the behaviour of the
  interpreters that have no such limit; 4300 by default where it exists). The limit applies
  to literals of more than 640 digits.
\<close>

definition py_int :: "nat \<Rightarrow> string \<Rightarrow> int option" where
  "py_int max_str_digits s =
     (let (negative, u) = take_sign (dropWhile int_isspace s);
          body = takeWhile digit_or_underscore u;
          rest = dropWhile digit_or_underscore u;
          ds = filter is_digit body
      in if body = [] \<or> hd body = CHR ''_'' \<or> last body = CHR ''_''
            \<or> double_underscore body \<or> \<not> list_all int_isspace rest
         then None
         else if 0 < max_str_digits \<and> 640 < length ds \<and> max_str_digits < length ds
         then None
         else Some (if negative then - int (digits_value ds) else int (digits_value ds)))"

text \<open>\<^verbatim>\<open>str(i)\<close> for an integer.\<close>

fun str_nat :: "nat \<Rightarrow> string" where
  "str_nat n = (if n < 10 then [digit_char n] else str_nat (n div 10) @ [digit_char (n mod 10)])"

declare str_nat.simps [simp del]

definition str_int :: "int \<Rightarrow> string" where
  "str_int i = (if i < 0 then CHR ''-'' # str_nat (nat (- i)) else str_nat (nat i))"

section \<open>Errors\<close>

text \<open>
  Every exception of a run is a value of \<open>error\<close>. The first three are the three
  \<^verbatim>\<open>ValueError\<close>s of \<^verbatim>\<open>_validate_ip_v4\<close>, with the values their messages interpolate (the
  \<^verbatim>\<open>repr\<close> of the inner exception of \<open>InvalidType\<close> is left out). \<open>StopIteration\<close> is what
  \<^verbatim>\<open>next\<close> raises on an exhausted iterator, \<open>HTTPError\<close> what \<^verbatim>\<open>raise_for_status\<close> raises,
  and \<open>CollaboratorError\<close> stands for an exception raised inside a collaborator (file
  reading, JSON decoding, the HTTP library, the provider's SDK). All of them derive from
  \<^verbatim>\<open>Exception\<close>.
\<close>

datatype error =
    NumberOfBytesMismatch nat string
  | InvalidType string string
  | ByteOutOfRange int string
  | StopIteration
  | HTTPError nat
  | CollaboratorError string

section \<open>The IPv4 validator\<close>

text \<open>The \<^verbatim>\<open>for raw_byte in raw_bytes\<close> loop of \<^verbatim>\<open>_validate_ip_v4\<close>.\<close>

fun parse_bytes :: "nat \<Rightarrow> string \<Rightarrow> string list \<Rightarrow> int list \<Rightarrow> error + int list" where
  "parse_bytes lim raw_ip_v4 [] parsed_bytes = Inr parsed_bytes"
| "parse_bytes lim raw_ip_v4 (raw_byte # raw_bytes) parsed_bytes =
     (case py_int lim raw_byte of
        None \<Rightarrow> Inl (InvalidType raw_byte raw_ip_v4)
      | Some parsed_byte \<Rightarrow>
          if \<not> (0 \<le> parsed_byte \<and> parsed_byte \<le> 255)
          then Inl (ByteOutOfRange parsed_byte raw_ip_v4)
          else parse_bytes lim raw_ip_v4 raw_bytes (parsed_bytes @ [parsed_byte]))"

text \<open>\<^verbatim>\<open>_validate_ip_v4\<close> (an Isabelle name cannot start with an underscore).\<close>

definition validate_ip_v4 :: "nat \<Rightarrow> string \<Rightarrow> error + string" where
  "validate_ip_v4 lim raw_ip_v4 =
     (let raw_bytes = split CHR ''.'' (strip raw_ip_v4)
      in if length raw_bytes \<noteq> 4
         then Inl (NumberOfBytesMismatch (length raw_bytes) raw_ip_v4)
         else (case parse_bytes lim raw_ip_v4 raw_bytes [] of
                 Inl e \<Rightarrow> Inl e
               | Inr parsed_bytes \<Rightarrow> Inr (join ''.'' (map str_int parsed_bytes))))"

text \<open>A segment the loop accepts: it parses, and to a value between 0 and 255.\<close>

definition byte_ok :: "nat \<Rightarrow> string \<Rightarrow> bool" where
  "byte_ok lim raw_byte =
     (case py_int lim raw_byte of None \<Rightarrow> False | Some n \<Rightarrow> 0 \<le> n \<and> n \<le> 255)"

section \<open>The outside world\<close>

text \<open>\<^verbatim>\<open>RecordInfo\<close>, the dataclass of the target zone and record.\<close>

record RecordInfo =
  target_hosted_zone_name :: string
  target_record_set_name :: string
  target_record_set_type :: string
  target_record_set_ttl :: int

text \<open>What the run reads of an HTTP response.\<close>

record response =
  status_code :: nat
  response_text :: string

text \<open>A hosted zone of the provider's listing; the run reads its \<^verbatim>\<open>Name\<close> and its \<^verbatim>\<open>Id\<close>.\<close>

record hosted_zone =
  zone_Id :: string
  zone_Name :: string

text \<open>
  The keyword arguments of \<^verbatim>\<open>change_resource_record_sets\<close>, dictionary by dictionary. A
  listed record set has the shape of \<open>resource_record_set\<close>; the run reads its \<^verbatim>\<open>Name\<close> only.
\<close>

record resource_record =
  Value :: string

record resource_record_set =
  Name :: string
  Type :: string
  TTL :: int
  ResourceRecords :: "resource_record list"

record change =
  Action :: string
  ResourceRecordSet :: resource_record_set

record change_batch =
  Changes :: "change list"

record change_request =
  HostedZoneId :: string
  ChangeBatch :: change_batch

text \<open>
  The Route 53 client: the outcome of each of its three operations the run calls, an error
  when the call raises. \<open>list_hosted_zones_by_name\<close> is the \<^verbatim>\<open>HostedZones\<close> entry of the
  answer, \<open>list_resource_record_sets\<close> the \<^verbatim>\<open>ResourceRecordSets\<close> entry for a zone id.
\<close>

record route_53_client =
  list_hosted_zones_by_name :: "error + hosted_zone list"
  list_resource_record_sets :: "string \<Rightarrow> error + resource_record_set list"
  change_resource_record_sets :: "change_request \<Rightarrow> error + unit"

text \<open>
  Everything a run depends on outside the script: the interpreter's digit limit, the
  outcome of \<^verbatim>\<open>load_record_info()\<close> (reading and decoding the configuration file and
  building the \<^verbatim>\<open>RecordInfo\<close>), the outcome of \<^verbatim>\<open>requests.get\<close> for a URL, and the outcome
  of \<^verbatim>\<open>get_boto3_session()\<close> followed by \<^verbatim>\<open>session.client('route53')\<close>.
\<close>

record world =
  int_max_str_digits :: nat
  load_record_info :: "error + RecordInfo"
  requests_get :: "string \<Rightarrow> error + response"
  get_route_53_client :: "error + route_53_client"

section \<open>Runs: log lines, outbound calls, exceptions\<close>

datatype level = DEBUG | INFO | CRITICAL

text \<open>The log lines of the script, each with the values its f-string interpolates.\<close>

datatype message =
    Running
  | IPv4_is string
  | Found_hosted_zones nat
  | Target_hosted_zone_is hosted_zone
  | Found_record_sets nat
  | Target_record_set_is "resource_record_set option"
  | Target_record_set_updated
  | Unhandled_exception error

text \<open>What a run does that can be observed: a log line, or a call to a remote service.\<close>

datatype event =
    Log level message
  | HttpGet string
  | ListHostedZonesByName
  | ListResourceRecordSets string
  | ChangeResourceRecordSets change_request

text \<open>
  A computation takes the events so far and returns its outcome (an exception or a value)
  with the events extended.
\<close>

type_synonym 'a run = "event list \<Rightarrow> (error + 'a) \<times> event list"

definition returns :: "'a \<Rightarrow> 'a run" where
  "returns v = (\<lambda>t. (Inr v, t))"

text \<open>An outcome that is already decided: a value, or an exception to raise.\<close>

definition outcome :: "error + 'a \<Rightarrow> 'a run" where
  "outcome r = (\<lambda>t. (r, t))"

text \<open>Sequencing: an exception of the first computation skips the rest.\<close>

definition and_then :: "'a run \<Rightarrow> ('a \<Rightarrow> 'b run) \<Rightarrow> 'b run" where
  "and_then m f = (\<lambda>t. case m t of (Inl e, t') \<Rightarrow> (Inl e, t') | (Inr v, t') \<Rightarrow> f v t')"

definition logger :: "level \<Rightarrow> message \<Rightarrow> unit run" where
  "logger l m = (\<lambda>t. (Inr (), t @ [Log l m]))"

text \<open>A call to a remote service: the call is recorded, then its outcome is returned or raised.\<close>

definition remote_call :: "event \<Rightarrow> error + 'a \<Rightarrow> 'a run" where
  "remote_call ev r = (\<lambda>t. (r, t @ [ev]))"

text \<open>\<^verbatim>\<open>try: body  except Exception as e: handler\<close>; every \<open>error\<close> is an \<^verbatim>\<open>Exception\<close>.\<close>

definition try_except :: "'a run \<Rightarrow> (error \<Rightarrow> 'a run) \<Rightarrow> 'a run" where
  "try_except body handler =
     (\<lambda>t. case body t of (Inl e, t') \<Rightarrow> handler e t' | (Inr v, t') \<Rightarrow> (Inr v, t'))"

text \<open>
  The interpreter running a script: exit status 0 when the script runs to its end, 1 when
  an exception leaves it.
\<close>

record process =
  events :: "event list"
  exit_status :: nat

definition run_script :: "unit run \<Rightarrow> process" where
  "run_script m =
     (case m [] of
        (Inl e, t) \<Rightarrow> \<lparr>events = t, exit_status = 1\<rparr>
      | (Inr v, t) \<Rightarrow> \<lparr>events = t, exit_status = 0\<rparr>)"

section \<open>The script\<close>

text \<open>\<^verbatim>\<open>response.raise_for_status()\<close>: an error for the 4xx and 5xx status codes.\<close>

definition raise_for_status :: "response \<Rightarrow> unit run" where
  "raise_for_status r =
     (if 400 \<le> status_code r \<and> status_code r < 600
      then outcome (Inl (HTTPError (status_code r)))
      else returns ())"

definition get_public_ip_v4 :: "world \<Rightarrow> string run" where
  "get_public_ip_v4 w =
     and_then (remote_call (HttpGet ''https://api.ipify.org'')
                 (requests_get w ''https://api.ipify.org'')) (\<lambda>response.
     and_then (raise_for_status response) (\<lambda>_.
     outcome (validate_ip_v4 (int_max_str_digits w) (response_text response))))"

definition update_route_53_record_set ::
    "route_53_client \<Rightarrow> string \<Rightarrow> string \<Rightarrow> string \<Rightarrow> int \<Rightarrow> string \<Rightarrow> unit run" where
  "update_route_53_record_set router_53_client hosted_zone_id
       record_set_name record_set_type record_ttl record_set_value =
     (let request =
        \<lparr>HostedZoneId = hosted_zone_id,
         ChangeBatch = \<lparr>Changes = [
           \<lparr>Action = ''UPSERT'',
            ResourceRecordSet =
              \<lparr>Name = record_set_name,
               Type = record_set_type,
               TTL = record_ttl,
               ResourceRecords = [\<lparr>Value = record_set_value\<rparr>]\<rparr>\<rparr>]\<rparr>\<rparr>
      in remote_call (ChangeResourceRecordSets request)
           (change_resource_record_sets router_53_client request))"

text \<open>\<^verbatim>\<open>next(filter(p, xs))\<close>: the first element that satisfies \<open>p\<close>, or \<^verbatim>\<open>StopIteration\<close>.\<close>

definition next_filter :: "('a \<Rightarrow> bool) \<Rightarrow> 'a list \<Rightarrow> 'a run" where
  "next_filter p xs = outcome (case find p xs of None \<Rightarrow> Inl StopIteration | Some x \<Rightarrow> Inr x)"

text \<open>The body of the \<^verbatim>\<open>try\<close> block of the script.\<close>

definition main_body :: "world \<Rightarrow> unit run" where
  "main_body w =
     and_then (logger INFO Running) (\<lambda>_.
     and_then (outcome (load_record_info w)) (\<lambda>record_info.
     and_then (get_public_ip_v4 w) (\<lambda>public_ip.
     and_then (logger INFO (IPv4_is public_ip)) (\<lambda>_.
     and_then (outcome (get_route_53_client w)) (\<lambda>route_53_client.
     and_then (remote_call ListHostedZonesByName
                 (list_hosted_zones_by_name route_53_client)) (\<lambda>hosted_zones.
     and_then (logger DEBUG (Found_hosted_zones (length hosted_zones))) (\<lambda>_.
     and_then (next_filter (\<lambda>hz. zone_Name hz = target_hosted_zone_name record_info)
                 hosted_zones) (\<lambda>target_hosted_zone.
     and_then (logger INFO (Target_hosted_zone_is target_hosted_zone)) (\<lambda>_.
     and_then (remote_call (ListResourceRecordSets (zone_Id target_hosted_zone))
                 (list_resource_record_sets route_53_client (zone_Id target_hosted_zone)))
       (\<lambda>target_hosted_zone_records.
     and_then (logger DEBUG (Found_record_sets (length target_hosted_zone_records))) (\<lambda>_.
     and_then (returns (find (\<lambda>r. Name r = target_record_set_name record_info)
                 target_hosted_zone_records)) (\<lambda>target_record.
     and_then (logger INFO (Target_record_set_is target_record)) (\<lambda>_.
     and_then (update_route_53_record_set route_53_client (zone_Id target_hosted_zone)
                 (target_record_set_name record_info) (target_record_set_type record_info)
                 (target_record_set_ttl record_info) public_ip) (\<lambda>_.
     logger INFO Target_record_set_updated))))))))))))))"

text \<open>The script: the body, and the handler that logs the exception at level CRITICAL.\<close>

definition main :: "world \<Rightarrow> process" where
  "main w =
     run_script (try_except (main_body w) (\<lambda>e. logger CRITICAL (Unhandled_exception e)))"

text \<open>The upsert requests among the events of a run.\<close>

fun upserts :: "event list \<Rightarrow> change_request list" where
  "upserts [] = []"
| "upserts (ChangeResourceRecordSets r # es) = r # upserts es"
| "upserts (_ # es) = upserts es"

text \<open>The CRITICAL log lines among the events of a run.\<close>

fun criticals :: "event list \<Rightarrow> message list" where
  "criticals [] = []"
| "criticals (Log CRITICAL m # es) = m # criticals es"
| "criticals (_ # es) = criticals es"

text \<open>
  The request that \<^const>\<open>update_route_53_record_set\<close> sends, as a function of its arguments
  (used to state what is sent).
\<close>

definition upsert_request :: "string \<Rightarrow> string \<Rightarrow> string \<Rightarrow> int \<Rightarrow> string \<Rightarrow> change_request" where
  "upsert_request hosted_zone_id record_set_name record_set_type record_ttl record_set_value =
     \<lparr>HostedZoneId = hosted_zone_id,
      ChangeBatch = \<lparr>Changes = [
        \<lparr>Action = ''UPSERT'',
         ResourceRecordSet =
           \<lparr>Name = record_set_name,
            Type = record_set_type,
            TTL = record_ttl,
            ResourceRecords = [\<lparr>Value = record_set_value\<rparr>]\<rparr>\<rparr>]\<rparr>\<rparr>"

text \<open>A computation that logs nothing at level CRITICAL, whatever its outcome.\<close>

definition no_critical :: "'a run \<Rightarrow> bool" where
  "no_critical m = (\<forall>t. criticals (snd (m t)) = criticals t)"

section \<open>Plain statements of what is accepted\<close>

text \<open>
  The interpreter's limit on the digits of a literal, as \<^const>\<open>py_int\<close> applies it: a
  literal of \<open>k\<close> digits is within the limit unless a limit is set, \<open>k\<close> is above 640 and
  \<open>k\<close> is above the limit.
\<close>

definition within_digit_limit :: "nat \<Rightarrow> nat \<Rightarrow> bool" where
  "within_digit_limit max_str_digits k =
     (\<not> (0 < max_str_digits \<and> 640 < k \<and> max_str_digits < k))"

text \<open>
  The grammar of a base-10 integer literal, written out: whitespace, at most one sign,
  one or more non-empty groups of decimal digits with one underscore between neighbouring
  groups, whitespace. The flag says whether the sign is a minus.
\<close>

definition decimal_literal :: "string \<Rightarrow> bool \<Rightarrow> string list \<Rightarrow> bool" where
  "decimal_literal s negative groups =
     (\<exists>ws1 sign ws2.
        s = ws1 @ sign @ join ''_'' groups @ ws2
        \<and> list_all int_isspace ws1 \<and> list_all int_isspace ws2
        \<and> (if negative then sign = ''-'' else sign = [] \<or> sign = ''+'')
        \<and> groups \<noteq> [] \<and> list_all (\<lambda>g. g \<noteq> [] \<and> list_all is_digit g) groups)"

text \<open>The integer such a literal denotes: its digits read in base 10, with its sign.\<close>

definition literal_value :: "bool \<Rightarrow> string list \<Rightarrow> int" where
  "literal_value negative groups =
     (if negative then - int (digits_value (concat groups))
      else int (digits_value (concat groups)))"

text \<open>
  A segment of an address in plain decimal: a non-empty run of decimal digits, within the
  digit limit, that denotes a value of at most 255. Leading zeros are allowed.
\<close>

definition decimal_byte :: "nat \<Rightarrow> string \<Rightarrow> bool" where
  "decimal_byte max_str_digits ds =
     (ds \<noteq> [] \<and> list_all is_digit ds \<and> within_digit_limit max_str_digits (length ds)
      \<and> digits_value ds \<le> 255)"

text \<open>
  The canonical form of an address given by its segments: each segment's value written in
  decimal without leading zeros, joined by dots.
\<close>

definition canonical_form :: "string list \<Rightarrow> string" where
  "canonical_form segments = join ''.'' (map (\<lambda>ds. str_nat (digits_value ds)) segments)"

section \<open>An example world\<close>

text \<open>
  A world in which every call succeeds: the echo service answers 200 with the given text,
  the provider lists the given hosted zones and, for any zone, the given record sets, and
  accepts every change. The configuration names the zone \<^verbatim>\<open>example.com.\<close> and the record
  \<^verbatim>\<open>home.example.com.\<close>, with the defaults of \<^verbatim>\<open>RecordInfo\<close> for type and TTL.
\<close>

definition example_client :: "hosted_zone list \<Rightarrow> resource_record_set list \<Rightarrow> route_53_client" where
  "example_client zones rsets =
     \<lparr>list_hosted_zones_by_name = Inr zones,
      list_resource_record_sets = (\<lambda>zone_id. Inr rsets),
      change_resource_record_sets = (\<lambda>request. Inr ())\<rparr>"

definition example_world :: "string \<Rightarrow> hosted_zone list \<Rightarrow> resource_record_set list \<Rightarrow> world" where
  "example_world body zones rsets =
     \<lparr>int_max_str_digits = 4300,
      load_record_info = Inr
        \<lparr>target_hosted_zone_name = ''example.com.'',
         target_record_set_name = ''home.example.com.'',
         target_record_set_type = ''A'',
         target_record_set_ttl = 300\<rparr>,
      requests_get = (\<lambda>url. Inr \<lparr>status_code = 200, response_text = body\<rparr>),
      get_route_53_client = Inr (example_client zones rsets)\<rparr>"

section \<open>Evaluation on concrete strings\<close>

lemmas string_eval = split_def strip_def py_isspace_def
lemmas int_eval = py_int_def int_isspace_def take_sign_def digit_or_underscore_def is_digit_def
  digits_value_def digit_value_def
lemmas str_eval = str_int_def str_nat.simps digit_char_def

section \<open>The validator, segment by segment\<close>

text \<open>
  The loop stops at the first segment that is not accepted, and that segment alone decides
  the error.
\<close>

lemma parse_bytes_find:
  "parse_bytes lim raw bs acc =
     (case find (\<lambda>b. \<not> byte_ok lim b) bs of
        None \<Rightarrow> Inr (acc @ map (\<lambda>b. the (py_int lim b)) bs)
      | Some b \<Rightarrow>
          (case py_int lim b of
             None \<Rightarrow> Inl (InvalidType b raw)
           | Some n \<Rightarrow> Inl (ByteOutOfRange n raw)))"
  by (induction bs arbitrary: acc) (auto simp: byte_ok_def split: option.splits)

lemma find_bad_None: "find (\<lambda>b. \<not> byte_ok lim b) bs = None \<longleftrightarrow> (\<forall>b\<in>set bs. byte_ok lim b)"
  by (auto simp: find_None_iff)

lemma find_bad_Some:
  "find (\<lambda>b. \<not> byte_ok lim b) bs = Some b \<longleftrightarrow>
     (\<exists>i<length bs. b = bs ! i \<and> \<not> byte_ok lim b \<and> (\<forall>j<i. byte_ok lim (bs ! j)))"
  by (auto simp: find_Some_iff)

text \<open>
  C1 (as amended). The validator strips the string and splits it on the dot. It fails with
  the segment-count error exactly when the number of segments is not 4. With 4 segments, the
  segments are checked from left to right and the first one that is not accepted decides:
  the non-numeric error exactly when that segment does not parse as an integer, the
  out-of-range error exactly when it parses to a value outside 0 to 255. The validator
  succeeds exactly when there are 4 segments and each parses to a value from 0 to 255.
\<close>

theorem validate_ip_v4_first_offender:
  fixes lim raw
  defines "segs \<equiv> split CHR ''.'' (strip raw)"
  shows
    "((\<exists>n. validate_ip_v4 lim raw = Inl (NumberOfBytesMismatch n raw)) \<longleftrightarrow> length segs \<noteq> 4)
   \<and> ((\<exists>b. validate_ip_v4 lim raw = Inl (InvalidType b raw)) \<longleftrightarrow>
        length segs = 4 \<and>
        (\<exists>i<4. py_int lim (segs ! i) = None \<and> (\<forall>j<i. byte_ok lim (segs ! j))))
   \<and> ((\<exists>n. validate_ip_v4 lim raw = Inl (ByteOutOfRange n raw)) \<longleftrightarrow>
        length segs = 4 \<and>
        (\<exists>i<4. (\<exists>n. py_int lim (segs ! i) = Some n \<and> \<not> (0 \<le> n \<and> n \<le> 255))
               \<and> (\<forall>j<i. byte_ok lim (segs ! j))))
   \<and> ((\<exists>r. validate_ip_v4 lim raw = Inr r) \<longleftrightarrow>
        length segs = 4 \<and> (\<forall>b\<in>set segs. byte_ok lim b))"
proof -
  let ?v = "validate_ip_v4 lim raw"
  let ?f = "find (\<lambda>b. \<not> byte_ok lim b) segs"
  have count: "length segs \<noteq> 4 \<Longrightarrow> ?v = Inl (NumberOfBytesMismatch (length segs) raw)"
    by (simp add: validate_ip_v4_def segs_def)
  have four: "length segs = 4 \<Longrightarrow> ?v =
      (case ?f of
         None \<Rightarrow> Inr (join ''.'' (map str_int (map (\<lambda>b. the (py_int lim b)) segs)))
       | Some b \<Rightarrow>
          (case py_int lim b of
             None \<Rightarrow> Inl (InvalidType b raw)
           | Some n \<Rightarrow> Inl (ByteOutOfRange n raw)))"
    by (simp add: validate_ip_v4_def segs_def [symmetric] parse_bytes_find Let_def
        split: option.splits)
  have c1: "(\<exists>n. ?v = Inl (NumberOfBytesMismatch n raw)) \<longleftrightarrow> length segs \<noteq> 4"
    using count four by (cases "length segs = 4") (auto split: option.splits)
  have c2: "(\<exists>b. ?v = Inl (InvalidType b raw)) \<longleftrightarrow>
        length segs = 4 \<and>
        (\<exists>i<4. py_int lim (segs ! i) = None \<and> (\<forall>j<i. byte_ok lim (segs ! j)))"
  proof (cases "length segs = 4")
    case False
    then show ?thesis using count by simp
  next
    case True
    show ?thesis
    proof
      assume "\<exists>b. ?v = Inl (InvalidType b raw)"
      then obtain b where f: "?f = Some b" and p: "py_int lim b = None"
        using four [OF True] by (auto split: option.splits)
      from f obtain i where "i < length segs" "b = segs ! i" "\<forall>j<i. byte_ok lim (segs ! j)"
        unfolding find_bad_Some by blast
      with p True show "length segs = 4 \<and>
        (\<exists>i<4. py_int lim (segs ! i) = None \<and> (\<forall>j<i. byte_ok lim (segs ! j)))"
        by auto
    next
      assume "length segs = 4 \<and>
        (\<exists>i<4. py_int lim (segs ! i) = None \<and> (\<forall>j<i. byte_ok lim (segs ! j)))"
      then obtain i where i: "i < 4" "py_int lim (segs ! i) = None" "\<forall>j<i. byte_ok lim (segs ! j)"
        by blast
      then have "\<not> byte_ok lim (segs ! i)" by (simp add: byte_ok_def)
      with i True have "?f = Some (segs ! i)" unfolding find_bad_Some by auto
      with i show "\<exists>b. ?v = Inl (InvalidType b raw)" using four [OF True] by simp
    qed
  qed
  have c3: "(\<exists>n. ?v = Inl (ByteOutOfRange n raw)) \<longleftrightarrow>
        length segs = 4 \<and>
        (\<exists>i<4. (\<exists>n. py_int lim (segs ! i) = Some n \<and> \<not> (0 \<le> n \<and> n \<le> 255))
               \<and> (\<forall>j<i. byte_ok lim (segs ! j)))"
  proof (cases "length segs = 4")
    case False
    then show ?thesis using count by simp
  next
    case True
    show ?thesis
    proof
      assume "\<exists>n. ?v = Inl (ByteOutOfRange n raw)"
      then obtain b n where f: "?f = Some b" and p: "py_int lim b = Some n"
        using four [OF True] by (auto split: option.splits)
      from f obtain i where i: "i < length segs" "b = segs ! i" "\<not> byte_ok lim b"
          "\<forall>j<i. byte_ok lim (segs ! j)"
        unfolding find_bad_Some by blast
      from p i(3) have "\<not> (0 \<le> n \<and> n \<le> 255)" by (simp add: byte_ok_def)
      with p i True show "length segs = 4 \<and>
        (\<exists>i<4. (\<exists>n. py_int lim (segs ! i) = Some n \<and> \<not> (0 \<le> n \<and> n \<le> 255))
               \<and> (\<forall>j<i. byte_ok lim (segs ! j)))"
        by auto
    next
      assume "length segs = 4 \<and>
        (\<exists>i<4. (\<exists>n. py_int lim (segs ! i) = Some n \<and> \<not> (0 \<le> n \<and> n \<le> 255))
               \<and> (\<forall>j<i. byte_ok lim (segs ! j)))"
      then obtain i n where i: "i < 4" "py_int lim (segs ! i) = Some n"
          "\<not> (0 \<le> n \<and> n \<le> 255)" "\<forall>j<i. byte_ok lim (segs ! j)"
        by blast
      then have "\<not> byte_ok lim (segs ! i)" by (simp add: byte_ok_def)
      with i True have "?f = Some (segs ! i)" unfolding find_bad_Some by auto
      with i show "\<exists>n. ?v = Inl (ByteOutOfRange n raw)" using four [OF True] by simp
    qed
  qed
  have c4: "(\<exists>r. ?v = Inr r) \<longleftrightarrow> length segs = 4 \<and> (\<forall>b\<in>set segs. byte_ok lim b)"
  proof (cases "length segs = 4")
    case False
    then show ?thesis using count by simp
  next
    case True
    then show ?thesis
      using four [OF True] find_bad_None [of lim segs]
      by (auto split: option.splits)
  qed
  from c1 c2 c3 c4 show ?thesis by blast
qed


theorem validate_ip_v4_first_offender_witness:
  "(\<exists>b. validate_ip_v4 4300 ''1.2.3.four'' = Inl (InvalidType b ''1.2.3.four''))
   \<and> (\<exists>r. validate_ip_v4 4300 ''192.168.1.1'' = Inr r)"
proof -
  have s1: "split CHR ''.'' (strip ''1.2.3.four'') = [''1'', ''2'', ''3'', ''four'']"
    by (simp add: string_eval)
  have p: "py_int 4300 ''four'' = None" "byte_ok 4300 ''1''" "byte_ok 4300 ''2''"
    "byte_ok 4300 ''3''"
    by (simp_all add: byte_ok_def int_eval)
  have "\<forall>j<3. byte_ok 4300 ([''1'', ''2'', ''3'', ''four''] ! j)"
    using p by (simp add: numeral_3_eq_3 less_Suc_eq)
  with p have "\<exists>i<4. py_int 4300 ([''1'', ''2'', ''3'', ''four''] ! i) = None
      \<and> (\<forall>j<i. byte_ok 4300 ([''1'', ''2'', ''3'', ''four''] ! j))"
    by (intro exI [of _ 3]) simp
  then have a: "\<exists>b. validate_ip_v4 4300 ''1.2.3.four'' = Inl (InvalidType b ''1.2.3.four'')"
    using validate_ip_v4_first_offender [of 4300 "''1.2.3.four''"] s1 by simp
  have s2: "split CHR ''.'' (strip ''192.168.1.1'') = [''192'', ''168'', ''1'', ''1'']"
    by (simp add: string_eval)
  have "byte_ok 4300 ''192''" "byte_ok 4300 ''168''" "byte_ok 4300 ''1''"
    by (simp_all add: byte_ok_def int_eval)
  then have b: "\<exists>r. validate_ip_v4 4300 ''192.168.1.1'' = Inr r"
    using validate_ip_v4_first_offender [of 4300 "''192.168.1.1''"] s2 by simp
  from a b show ?thesis by blast
qed

text \<open>
  C1 as stated fails: in \<^verbatim>\<open>256.x.3.4\<close> the segment \<^verbatim>\<open>x\<close> does not parse, yet the error is
  the out-of-range error of the segment before it.
\<close>

theorem validate_ip_v4_any_segment_counterexample:
  "''x'' \<in> set (split CHR ''.'' (strip ''256.x.3.4''))
   \<and> py_int 4300 ''x'' = None
   \<and> validate_ip_v4 4300 ''256.x.3.4'' = Inl (ByteOutOfRange 256 ''256.x.3.4'')"
  by (simp add: validate_ip_v4_def string_eval int_eval)


section \<open>Digits, \<^verbatim>\<open>str\<close> and \<^verbatim>\<open>int\<close>\<close>

lemma digit_cases: "d < 10 \<Longrightarrow> d \<in> {0, 1, 2, 3, 4, 5, 6, 7, 8, 9 :: nat}"
  by auto

lemma is_digit_digit_char: "d < 10 \<Longrightarrow> is_digit (digit_char d)"
  using digit_cases [of d] by (auto simp: is_digit_def digit_char_def)

lemma digit_value_digit_char: "d < 10 \<Longrightarrow> digit_value (digit_char d) = d"
  using digit_cases [of d] by (auto simp: digit_value_def digit_char_def)

lemma is_digit_not_special:
  assumes "is_digit c"
  shows "\<not> py_isspace c" "\<not> int_isspace c" "c \<noteq> CHR ''.''" "c \<noteq> CHR ''+''"
    "c \<noteq> CHR ''-''" "c \<noteq> CHR ''_''"
  using assms by (auto simp: is_digit_def py_isspace_def int_isspace_def)

lemma str_nat_digits: "str_nat n \<noteq> [] \<and> list_all is_digit (str_nat n)"
proof (induction n rule: str_nat.induct)
  case (1 n)
  show ?case
  proof (cases "n < 10")
    case True
    then show ?thesis by (simp add: str_nat.simps [of n] is_digit_digit_char)
  next
    case False
    with 1 show ?thesis by (simp add: str_nat.simps [of n] is_digit_digit_char)
  qed
qed

lemma digits_value_snoc: "digits_value (ds @ [c]) = 10 * digits_value ds + digit_value c"
  by (simp add: digits_value_def)

lemma digits_value_str_nat: "digits_value (str_nat n) = n"
proof (induction n rule: str_nat.induct)
  case (1 n)
  show ?case
  proof (cases "n < 10")
    case True
    then show ?thesis
      by (simp add: str_nat.simps [of n] digits_value_def digit_value_digit_char)
  next
    case False
    with 1 show ?thesis
      by (simp add: str_nat.simps [of n] digits_value_snoc digit_value_digit_char)
  qed
qed

lemma length_str_nat_byte: "n \<le> 255 \<Longrightarrow> length (str_nat n) \<le> 3"
  by (simp add: str_nat.simps [of n] str_nat.simps [of "n div 10"]
      str_nat.simps [of "n div 10 div 10"])

lemma double_underscore_digits: "list_all is_digit ds \<Longrightarrow> \<not> double_underscore ds"
  by (induction ds rule: double_underscore.induct) (auto dest: is_digit_not_special(6))

lemma py_int_digits:
  assumes "ds \<noteq> []" "list_all is_digit ds" "length ds \<le> 640"
  shows "py_int lim ds = Some (int (digits_value ds))"
proof -
  from assms obtain c r where ds: "ds = c # r" "is_digit c" by (cases ds) auto
  then have d: "dropWhile int_isspace ds = ds" by (simp add: is_digit_not_special)
  have s: "take_sign ds = (False, ds)"
    using ds by (simp add: take_sign_def is_digit_not_special)
  have all: "\<forall>x\<in>set ds. digit_or_underscore x"
    using assms(2) by (auto simp: list_all_iff digit_or_underscore_def)
  then have t: "takeWhile digit_or_underscore ds = ds" "dropWhile digit_or_underscore ds = []"
    by simp_all
  have f: "filter is_digit ds = ds" using assms(2) by (simp add: list_all_iff)
  have l: "last ds \<noteq> CHR ''_''"
    using assms(1,2) is_digit_not_special(6) [of "last ds"] by (auto simp: list_all_iff)
  have h: "hd ds \<noteq> CHR ''_''" using ds by (auto dest: is_digit_not_special(6))
  show ?thesis
    using assms(1,3) double_underscore_digits [OF assms(2)] l h
    by (simp add: py_int_def d s t f)
qed

lemma py_int_str_int:
  assumes "0 \<le> n" "n \<le> 255"
  shows "py_int lim (str_int n) = Some n"
proof -
  have "nat n \<le> 255" using assms by simp
  then have "length (str_nat (nat n)) \<le> 640" using length_str_nat_byte [of "nat n"] by simp
  then have "py_int lim (str_nat (nat n)) = Some (int (digits_value (str_nat (nat n))))"
    using str_nat_digits [of "nat n"] by (intro py_int_digits) simp_all
  with assms show ?thesis by (simp add: str_int_def digits_value_str_nat)
qed

lemma str_int_byte_digits:
  assumes "0 \<le> n"
  shows "str_int n \<noteq> []" "list_all is_digit (str_int n)"
  using assms str_nat_digits [of "nat n"] by (simp_all add: str_int_def)

section \<open>Splitting and joining\<close>

lemma split_from_no_sep:
  "sep \<notin> set a \<Longrightarrow> split_from sep cur (a @ rest) = split_from sep (cur @ a) rest"
  by (induction a arbitrary: cur) auto

lemma split_from_sep: "split_from sep cur (a @ sep # rest) = (cur @ a) # split_from sep [] rest"
  if "sep \<notin> set a"
  using that by (simp add: split_from_no_sep)

lemma split_from_last: "sep \<notin> set a \<Longrightarrow> split_from sep cur a = [cur @ a]"
  using split_from_no_sep [of sep a cur "[]"] by simp

lemma split_join4:
  assumes "CHR ''.'' \<notin> set a" "CHR ''.'' \<notin> set b" "CHR ''.'' \<notin> set c" "CHR ''.'' \<notin> set d"
  shows "split CHR ''.'' (join ''.'' [a, b, c, d]) = [a, b, c, d]"
  using assms by (simp add: split_def split_from_sep split_from_last)

section \<open>Stripping\<close>

lemma strip_id:
  assumes "s \<noteq> []" "\<not> py_isspace (hd s)" "\<not> py_isspace (last s)"
  shows "strip s = s"
proof -
  from assms have "dropWhile py_isspace s = s" by (cases s) auto
  moreover from assms have "dropWhile py_isspace (rev s) = rev s"
    by (cases "rev s") (auto simp: hd_rev)
  ultimately show ?thesis by (simp add: strip_def)
qed

lemma strip_surround:
  assumes "list_all py_isspace ws" "list_all py_isspace ws'"
  shows "strip (ws @ s @ ws') = strip s"
proof -
  have ws: "\<forall>x\<in>set ws. py_isspace x" and ws': "\<forall>x\<in>set ws'. py_isspace x"
    using assms by (simp_all add: list_all_iff)
  have a: "dropWhile py_isspace (ws @ s @ ws') = dropWhile py_isspace (s @ ws')"
    using ws by (simp add: dropWhile_append)
  show ?thesis
  proof (cases "\<forall>x\<in>set s. py_isspace x")
    case True
    with ws' have "\<forall>x\<in>set (s @ ws'). py_isspace x" by auto
    then have b: "dropWhile py_isspace (s @ ws') = []"
      unfolding dropWhile_eq_Nil_conv .
    from True have c: "dropWhile py_isspace s = []" by simp
    show ?thesis unfolding strip_def a b c ..
  next
    case False
    then have b: "dropWhile py_isspace (s @ ws') = dropWhile py_isspace s @ ws'"
      by (auto simp: dropWhile_append)
    have "dropWhile py_isspace (rev ws' @ rev (dropWhile py_isspace s))
        = dropWhile py_isspace (rev (dropWhile py_isspace s))"
      using ws' by (simp add: dropWhile_append)
    then show ?thesis unfolding strip_def a b by simp
  qed
qed

section \<open>What the validator returns\<close>

lemma validate_ip_v4_count:
  "length (split CHR ''.'' (strip raw)) \<noteq> 4 \<Longrightarrow>
     validate_ip_v4 lim raw = Inl (NumberOfBytesMismatch (length (split CHR ''.'' (strip raw))) raw)"
  by (simp add: validate_ip_v4_def)

lemma validate_ip_v4_four:
  "length (split CHR ''.'' (strip raw)) = 4 \<Longrightarrow>
     validate_ip_v4 lim raw =
       (case find (\<lambda>b. \<not> byte_ok lim b) (split CHR ''.'' (strip raw)) of
          None \<Rightarrow> Inr (join ''.'' (map str_int
                    (map (\<lambda>b. the (py_int lim b)) (split CHR ''.'' (strip raw)))))
        | Some b \<Rightarrow>
            (case py_int lim b of
               None \<Rightarrow> Inl (InvalidType b raw)
             | Some n \<Rightarrow> Inl (ByteOutOfRange n raw)))"
  by (simp add: validate_ip_v4_def parse_bytes_find Let_def split: option.splits)

lemma validate_ip_v4_Inr_iff:
  "validate_ip_v4 lim raw = Inr r \<longleftrightarrow>
     length (split CHR ''.'' (strip raw)) = 4
     \<and> (\<forall>b\<in>set (split CHR ''.'' (strip raw)). byte_ok lim b)
     \<and> r = join ''.'' (map str_int (map (\<lambda>b. the (py_int lim b)) (split CHR ''.'' (strip raw))))"
proof (cases "length (split CHR ''.'' (strip raw)) = 4")
  case False
  then show ?thesis using validate_ip_v4_count [of raw lim] by simp
next
  case True
  show ?thesis
    using True find_bad_None [of lim "split CHR ''.'' (strip raw)"]
    by (auto simp: validate_ip_v4_four [OF True] split: option.splits)
qed

lemma validate_ip_v4_first_bad:
  assumes "length (split CHR ''.'' (strip raw)) = 4" "i < 4"
    "\<forall>j<i. byte_ok lim (split CHR ''.'' (strip raw) ! j)"
    "py_int lim (split CHR ''.'' (strip raw) ! i) = None"
  shows "validate_ip_v4 lim raw = Inl (InvalidType (split CHR ''.'' (strip raw) ! i) raw)"
proof -
  let ?segs = "split CHR ''.'' (strip raw)"
  have "\<not> byte_ok lim (?segs ! i)" using assms(4) by (simp add: byte_ok_def)
  with assms have "find (\<lambda>b. \<not> byte_ok lim b) ?segs = Some (?segs ! i)"
    unfolding find_bad_Some by auto
  with assms(4) show ?thesis by (simp add: validate_ip_v4_four [OF assms(1)])
qed

lemma byte_ok_Some: "byte_ok lim b \<Longrightarrow> \<exists>n. py_int lim b = Some n \<and> 0 \<le> n \<and> n \<le> 255"
  by (auto simp: byte_ok_def split: option.splits)

lemma byte_ok_the_eq: "byte_ok lim b \<Longrightarrow> Some (the (py_int lim b)) = py_int lim b"
  by (auto simp: byte_ok_def split: option.splits)

lemma byte_ok_range:
  "byte_ok lim b \<Longrightarrow> 0 \<le> the (py_int lim b) \<and> the (py_int lim b) \<le> 255"
  by (auto simp: byte_ok_def split: option.splits)

lemma dot_not_digit: "\<not> is_digit CHR ''.''"
  by (simp add: is_digit_def)

lemma length4: "length xs = 4 \<Longrightarrow> \<exists>a b c d. xs = [a, b, c, d]"
  by (auto simp: length_Suc_conv numeral_eq_Suc)

lemma validate_ip_v4_canonical_form:
  assumes "\<forall>n\<in>set [a, b, c, d]. 0 \<le> n \<and> n \<le> 255"
  shows "validate_ip_v4 lim (join ''.'' (map str_int [a, b, c, d]))
           = Inr (join ''.'' (map str_int [a, b, c, d]))"
proof -
  let ?r = "join ''.'' (map str_int [a, b, c, d])"
  have nn: "0 \<le> a" "0 \<le> b" "0 \<le> c" "0 \<le> d" using assms by simp_all
  have dig: "list_all is_digit (str_int a)" "list_all is_digit (str_int b)"
    "list_all is_digit (str_int c)" "list_all is_digit (str_int d)"
    and ne: "str_int a \<noteq> []" "str_int d \<noteq> []"
    using nn by (simp_all add: str_int_byte_digits)
  have nodot: "CHR ''.'' \<notin> set (str_int a)" "CHR ''.'' \<notin> set (str_int b)"
    "CHR ''.'' \<notin> set (str_int c)" "CHR ''.'' \<notin> set (str_int d)"
    using dig dot_not_digit by (auto simp: list_all_iff)
  have "hd ?r = hd (str_int a)" using ne by simp
  moreover have "is_digit (hd (str_int a))" using ne dig(1) by (cases "str_int a") auto
  ultimately have h: "\<not> py_isspace (hd ?r)" by (simp add: is_digit_not_special)
  have "last ?r = last (str_int d)" using ne by simp
  moreover have "is_digit (last (str_int d))"
    using ne dig(4) last_in_set [of "str_int d"] by (auto simp: list_all_iff)
  ultimately have l: "\<not> py_isspace (last ?r)" by (simp add: is_digit_not_special)
  have "?r \<noteq> []" using ne by simp
  then have s: "strip ?r = ?r" using h l by (rule strip_id)
  have sp: "split CHR ''.'' (strip ?r) = [str_int a, str_int b, str_int c, str_int d]"
    unfolding s using split_join4 [OF nodot] by simp
  have p: "py_int lim (str_int a) = Some a" "py_int lim (str_int b) = Some b"
    "py_int lim (str_int c) = Some c" "py_int lim (str_int d) = Some d"
    using assms by (simp_all add: py_int_str_int)
  show ?thesis
    unfolding validate_ip_v4_Inr_iff sp using p assms by (simp add: byte_ok_def)
qed

text \<open>
  C6. When the validator succeeds, its result is the four parsed integers, each from 0 to
  255, written in decimal and joined by dots; it is not the input. So leading zeros are
  gone: \<^verbatim>\<open>01.02.03.04\<close> gives \<^verbatim>\<open>1.2.3.4\<close>.
\<close>

theorem validate_ip_v4_canonical:
  "(validate_ip_v4 lim raw = Inr r \<longrightarrow>
      (\<exists>ns. length ns = 4
          \<and> map (py_int lim) (split CHR ''.'' (strip raw)) = map Some ns
          \<and> (\<forall>n\<in>set ns. 0 \<le> n \<and> n \<le> 255)
          \<and> r = join ''.'' (map str_int ns)))
   \<and> validate_ip_v4 lim ''01.02.03.04'' = Inr ''1.2.3.4''"
proof
  show "validate_ip_v4 lim raw = Inr r \<longrightarrow>
      (\<exists>ns. length ns = 4
          \<and> map (py_int lim) (split CHR ''.'' (strip raw)) = map Some ns
          \<and> (\<forall>n\<in>set ns. 0 \<le> n \<and> n \<le> 255)
          \<and> r = join ''.'' (map str_int ns))"
  proof
    let ?segs = "split CHR ''.'' (strip raw)"
    let ?ns = "map (\<lambda>b. the (py_int lim b)) ?segs"
    assume "validate_ip_v4 lim raw = Inr r"
    then have four: "length ?segs = 4" and ok: "\<forall>b\<in>set ?segs. byte_ok lim b"
      and r: "r = join ''.'' (map str_int ?ns)"
      unfolding validate_ip_v4_Inr_iff by simp_all
    have "map (py_int lim) ?segs = map Some ?ns"
      using ok by (simp add: byte_ok_the_eq)
    moreover have "\<forall>n\<in>set ?ns. 0 \<le> n \<and> n \<le> 255"
      using ok by (simp add: byte_ok_range)
    ultimately show "\<exists>ns. length ns = 4
          \<and> map (py_int lim) ?segs = map Some ns
          \<and> (\<forall>n\<in>set ns. 0 \<le> n \<and> n \<le> 255)
          \<and> r = join ''.'' (map str_int ns)"
      using four r by (intro exI [of _ ?ns]) simp
  qed
  show "validate_ip_v4 lim ''01.02.03.04'' = Inr ''1.2.3.4''"
    by (simp add: validate_ip_v4_def string_eval int_eval str_eval)
qed

theorem validate_ip_v4_canonical_witness:
  "validate_ip_v4 4300 ''010.0.00.255'' = Inr ''10.0.0.255''
   \<and> (\<exists>ns. length ns = 4
          \<and> map (py_int 4300) (split CHR ''.'' (strip ''010.0.00.255'')) = map Some ns
          \<and> list_all (\<lambda>n. 0 \<le> n \<and> n \<le> 255) ns
          \<and> ''10.0.0.255'' = join ''.'' (map str_int ns))"
proof -
  have v: "validate_ip_v4 4300 ''010.0.00.255'' = Inr ''10.0.0.255''"
    by (simp add: validate_ip_v4_def string_eval int_eval str_eval)
  with validate_ip_v4_canonical [of 4300 "''010.0.00.255''" "''10.0.0.255''"]
  show ?thesis by (simp add: list_all_iff)
qed

text \<open>
  C7. On every string on which the validator succeeds, validating the result again succeeds
  and returns that same result.
\<close>

theorem validate_ip_v4_idempotent:
  assumes "validate_ip_v4 lim x = Inr r"
  shows "validate_ip_v4 lim r = Inr r"
proof -
  let ?segs = "split CHR ''.'' (strip x)"
  let ?ns = "map (\<lambda>b. the (py_int lim b)) ?segs"
  from assms have four: "length ?segs = 4" and ok: "\<forall>b\<in>set ?segs. byte_ok lim b"
    and r: "r = join ''.'' (map str_int ?ns)"
    unfolding validate_ip_v4_Inr_iff by simp_all
  from four have "length ?ns = 4" by simp
  then have "\<exists>a b c d. ?ns = [a, b, c, d]" by (rule length4)
  then obtain a b c d where ns: "?ns = [a, b, c, d]" by (elim exE)
  have "\<forall>n\<in>set ?ns. 0 \<le> n \<and> n \<le> 255" using ok by (simp add: byte_ok_range)
  then have "\<forall>n\<in>set [a, b, c, d]. 0 \<le> n \<and> n \<le> 255" unfolding ns .
  then show ?thesis unfolding r ns by (rule validate_ip_v4_canonical_form)
qed

theorem validate_ip_v4_idempotent_witness:
  "validate_ip_v4 4300 '' +1.02.3_0.4 '' = Inr ''1.2.30.4''
   \<and> validate_ip_v4 4300 ''1.2.30.4'' = Inr ''1.2.30.4''"
proof -
  have v: "validate_ip_v4 4300 '' +1.02.3_0.4 '' = Inr ''1.2.30.4''"
    by (simp add: validate_ip_v4_def string_eval int_eval str_eval)
  from validate_ip_v4_idempotent [OF v] v show ?thesis by simp
qed


section \<open>What \<^verbatim>\<open>int()\<close> accepts\<close>

lemma int_isspace_py_isspace: "int_isspace c \<Longrightarrow> py_isspace c"
  by (auto simp: int_isspace_def py_isspace_def)

lemma sign_not_space: "\<not> py_isspace CHR ''+''" "\<not> py_isspace CHR ''-''"
  "\<not> int_isspace CHR ''+''" "\<not> int_isspace CHR ''-''"
  by (simp_all add: py_isspace_def int_isspace_def)

lemma take_sign_cases:
  "take_sign t = (neg, u) \<Longrightarrow>
     t = CHR ''+'' # u \<or> t = CHR ''-'' # u \<or> (t = u \<and> (u = [] \<or> (hd u \<noteq> CHR ''+'' \<and> hd u \<noteq> CHR ''-'')))"
  by (auto simp: take_sign_def split: list.splits if_splits)

text \<open>The parts of a literal that \<^const>\<open>py_int\<close> accepts.\<close>

lemma py_int_SomeD:
  assumes "py_int lim s = Some n" "take_sign (dropWhile int_isspace s) = (neg, u)"
  shows "takeWhile digit_or_underscore u \<noteq> []"
    "hd (takeWhile digit_or_underscore u) \<noteq> CHR ''_''"
    "list_all int_isspace (dropWhile digit_or_underscore u)"
  using assms by (auto simp: py_int_def Let_def split: if_splits)

lemma py_int_Some_start:
  assumes "py_int lim s = Some n"
  shows "dropWhile int_isspace s \<noteq> [] \<and> \<not> py_isspace (hd (dropWhile int_isspace s))"
proof -
  define t where "t = dropWhile int_isspace s"
  obtain neg u where u: "take_sign t = (neg, u)" by (cases "take_sign t")
  note d = py_int_SomeD [OF assms u [unfolded t_def]]
  from d(1) have une: "u \<noteq> []" by auto
  from d(1) have "digit_or_underscore (hd u)" by (cases u) (auto split: if_splits)
  moreover from d(1) have "hd (takeWhile digit_or_underscore u) = hd u"
    by (cases u) (auto split: if_splits)
  ultimately have "is_digit (hd u)" using d(2) by (simp add: digit_or_underscore_def)
  then have "\<not> py_isspace (hd u)" by (simp add: is_digit_not_special)
  with take_sign_cases [OF u] une have "t \<noteq> [] \<and> \<not> py_isspace (hd t)"
    by (auto simp: sign_not_space)
  then show ?thesis unfolding t_def .
qed

lemma py_int_lstrip:
  assumes "py_int lim s = Some n"
  shows "py_int lim (dropWhile py_isspace s) = Some n"
    and "dropWhile py_isspace s \<noteq> []"
proof -
  let ?t = "dropWhile int_isspace s"
  from py_int_Some_start [OF assms] have t: "?t \<noteq> []" "\<not> py_isspace (hd ?t)" by simp_all
  have "s = takeWhile int_isspace s @ ?t" by simp
  then have "dropWhile py_isspace s = dropWhile py_isspace (takeWhile int_isspace s @ ?t)"
    by simp
  also have "\<dots> = dropWhile py_isspace ?t"
    by (simp add: dropWhile_append del: takeWhile_dropWhile_id)
      (auto dest!: set_takeWhileD intro: int_isspace_py_isspace)
  also have "\<dots> = ?t" using t by (cases ?t) auto
  finally have eq: "dropWhile py_isspace s = ?t" .
  have "py_int lim ?t = py_int lim s" by (simp add: py_int_def)
  with assms eq show "py_int lim (dropWhile py_isspace s) = Some n" by simp
  from eq t show "dropWhile py_isspace s \<noteq> []" by simp
qed

lemma byte_ok_lstrip:
  assumes "byte_ok lim s"
  shows "byte_ok lim (dropWhile py_isspace s)" "dropWhile py_isspace s \<noteq> []"
proof -
  from assms obtain n where n: "py_int lim s = Some n" "0 \<le> n" "n \<le> 255"
    by (auto dest: byte_ok_Some)
  from py_int_lstrip [OF n(1)] n(2,3)
  show "byte_ok lim (dropWhile py_isspace s)" "dropWhile py_isspace s \<noteq> []"
    by (simp_all add: byte_ok_def)
qed

lemma py_int_empty: "py_int lim [] = None"
  by (simp add: py_int_def take_sign_def)

section \<open>Segments that are not plain decimal\<close>

lemma join_Cons: "L \<noteq> [] \<Longrightarrow> join sep (x # L) = x @ sep @ join sep L"
  by (cases L) simp_all

lemma split_from_not_Nil: "split_from sep cur s \<noteq> []"
  by (induction s arbitrary: cur) simp_all

lemma join_split_from: "join [sep] (split_from sep cur s) = cur @ s"
  by (induction s arbitrary: cur) (simp_all add: join_Cons split_from_not_Nil)

lemma split_from_chars:
  "g \<in> set (split_from sep cur s) \<Longrightarrow> set g \<subseteq> set cur \<union> (set s - {sep})"
proof (induction s arbitrary: cur)
  case Nil
  then show ?case by simp
next
  case (Cons c cs)
  show ?case
  proof (cases "c = sep")
    case True
    with Cons.prems have "g = cur \<or> g \<in> set (split_from sep [] cs)" by simp
    then show ?thesis
    proof
      assume "g = cur"
      then show ?thesis by auto
    next
      assume "g \<in> set (split_from sep [] cs)"
      from Cons.IH [OF this] show ?thesis by auto
    qed
  next
    case False
    with Cons.prems have "g \<in> set (split_from sep (cur @ [c]) cs)" by simp
    from Cons.IH [OF this] False show ?thesis by auto
  qed
qed

lemma double_underscore_Cons:
  "a \<noteq> CHR ''_'' \<Longrightarrow> double_underscore (a # s) = double_underscore s"
  by (cases s) simp_all

lemma double_underscore_us:
  "double_underscore (CHR ''_'' # c # r) = (c = CHR ''_'' \<or> double_underscore (c # r))"
  by simp

lemma double_underscore_digits_append:
  "list_all is_digit g \<Longrightarrow> double_underscore (g @ s) = double_underscore s"
  by (induction g) (auto simp: double_underscore_Cons dest: is_digit_not_special(6))

lemma split_from_groups_not_Nil:
  assumes "cur \<noteq> [] \<or> (s \<noteq> [] \<and> hd s \<noteq> CHR ''_'')"
    and "s = [] \<or> last s \<noteq> CHR ''_''" and "\<not> double_underscore s"
  shows "[] \<notin> set (split_from CHR ''_'' cur s)"
  using assms
proof (induction s arbitrary: cur)
  case Nil
  then show ?case by simp
next
  case (Cons c cs)
  show ?case
  proof (cases "c = CHR ''_''")
    case True
    with Cons.prems have cur: "cur \<noteq> []" and cs: "cs \<noteq> []" by auto
    then obtain b r where br: "cs = b # r" by (cases cs) auto
    with Cons.prems(3) True have b: "b \<noteq> CHR ''_''" and du: "\<not> double_underscore cs"
      by simp_all
    have "[] \<notin> set (split_from CHR ''_'' [] cs)"
    proof (rule Cons.IH)
      show "[] \<noteq> [] \<or> cs \<noteq> [] \<and> hd cs \<noteq> CHR ''_''" using br b by simp
      show "cs = [] \<or> last cs \<noteq> CHR ''_''" using Cons.prems(2) cs by simp
      show "\<not> double_underscore cs" by (rule du)
    qed
    with True cur show ?thesis by simp
  next
    case False
    have "[] \<notin> set (split_from CHR ''_'' (cur @ [c]) cs)"
    proof (rule Cons.IH)
      show "cur @ [c] \<noteq> [] \<or> cs \<noteq> [] \<and> hd cs \<noteq> CHR ''_''" by simp
      show "cs = [] \<or> last cs \<noteq> CHR ''_''" using Cons.prems(2) by (auto split: if_splits)
      show "\<not> double_underscore cs"
        using Cons.prems(3) False by (simp add: double_underscore_Cons)
    qed
    with False show ?thesis by simp
  qed
qed

lemma join_groups:
  assumes "gs \<noteq> []" "list_all (\<lambda>g. g \<noteq> [] \<and> list_all is_digit g) gs"
  shows "join ''_'' gs \<noteq> [] \<and> is_digit (hd (join ''_'' gs)) \<and> is_digit (last (join ''_'' gs))
    \<and> (\<forall>x\<in>set (join ''_'' gs). digit_or_underscore x)
    \<and> \<not> double_underscore (join ''_'' gs)
    \<and> filter is_digit (join ''_'' gs) = concat gs"
  using assms
proof (induction "''_''" gs rule: join.induct)
  case 1
  then show ?case by simp
next
  case (2 x)
  then have x: "x \<noteq> []" "list_all is_digit x" by simp_all
  then have "is_digit (hd x)" "is_digit (last x)"
    using hd_in_set [of x] last_in_set [of x] by (auto simp: list_all_iff)
  with x show ?case
    by (auto simp: double_underscore_digits list_all_iff digit_or_underscore_def)
next
  case (3 x y ys)
  let ?J = "join ''_'' (y # ys)"
  from 3 have x: "x \<noteq> []" "list_all is_digit x" by simp_all
  then have hx: "is_digit (hd x)" using hd_in_set [of x] by (auto simp: list_all_iff)
  from 3 have J: "?J \<noteq> []" "is_digit (hd ?J)" "is_digit (last ?J)"
    "\<forall>x\<in>set ?J. digit_or_underscore x" "\<not> double_underscore ?J"
    "filter is_digit ?J = concat (y # ys)"
    by simp_all
  obtain c r where cr: "?J = c # r" using J(1) by (cases ?J) auto
  with J(2) have c: "c \<noteq> CHR ''_''" by (auto dest: is_digit_not_special(6))
  have du: "\<not> double_underscore (x @ CHR ''_'' # ?J)"
    using J(5) c unfolding double_underscore_digits_append [OF x(2)] cr by simp
  have us: "\<not> is_digit CHR ''_''" by (simp add: is_digit_def)
  have f: "filter is_digit (x @ CHR ''_'' # ?J) = x @ concat (y # ys)"
    using x(2) J(6) us by (simp add: list_all_iff)
  have e: "join ''_'' (x # y # ys) = x @ CHR ''_'' # ?J" by simp
  show ?case
    unfolding e using x hx J du f
    by (auto simp: list_all_iff digit_or_underscore_def)
qed

lemma while_append:
  assumes "\<forall>x\<in>set xs. P x" "ys = [] \<or> \<not> P (hd ys)"
  shows "takeWhile P (xs @ ys) = xs" "dropWhile P (xs @ ys) = ys"
  using assms by (cases ys; simp)+

lemma int_isspace_not_body: "int_isspace c \<Longrightarrow> \<not> digit_or_underscore c"
  by (auto simp: int_isspace_def digit_or_underscore_def is_digit_def)

lemma take_sign_signed:
  "take_sign (CHR ''+'' # u) = (False, u)" "take_sign (CHR ''-'' # u) = (True, u)"
  "is_digit c \<Longrightarrow> take_sign (c # u) = (False, c # u)"
  by (auto simp: take_sign_def dest: is_digit_not_special)

lemma take_sign_shape:
  "take_sign t = (neg, u) \<Longrightarrow>
     (t = CHR ''+'' # u \<and> \<not> neg) \<or> (t = CHR ''-'' # u \<and> neg) \<or> (t = u \<and> \<not> neg)"
  by (auto simp: take_sign_def split: list.splits if_splits)

section \<open>The literals \<^verbatim>\<open>int()\<close> accepts\<close>

lemma py_int_of_literal:
  assumes "decimal_literal s negative groups"
  shows "py_int lim s =
    (if within_digit_limit lim (length (concat groups))
     then Some (literal_value negative groups) else None)"
proof -
  let ?J = "join ''_'' groups"
  from assms obtain ws1 sign ws2 where s: "s = ws1 @ sign @ ?J @ ws2"
    and ws1: "list_all int_isspace ws1" and ws2: "list_all int_isspace ws2"
    and sign: "if negative then sign = ''-'' else sign = [] \<or> sign = ''+''"
    and gs: "groups \<noteq> []" "list_all (\<lambda>g. g \<noteq> [] \<and> list_all is_digit g) groups"
    unfolding decimal_literal_def by blast
  note J = join_groups [OF gs]
  obtain c r where cr: "?J = c # r" "is_digit c" using J by (cases ?J) auto
  have ts: "take_sign (sign @ ?J @ ws2) = (negative, ?J @ ws2)"
    using sign cr by (auto simp: take_sign_signed split: if_splits)
  have "\<not> int_isspace (hd (sign @ ?J @ ws2))"
    using sign cr by (auto simp: sign_not_space is_digit_not_special split: if_splits)
  moreover have "sign @ ?J @ ws2 \<noteq> []" using cr by simp
  ultimately have "dropWhile int_isspace (sign @ ?J @ ws2) = sign @ ?J @ ws2"
    by (cases "sign @ ?J @ ws2") auto
  then have d: "dropWhile int_isspace s = sign @ ?J @ ws2"
    unfolding s using ws1 by (simp add: dropWhile_append list_all_iff)
  have hw: "ws2 = [] \<or> \<not> digit_or_underscore (hd ws2)"
    using ws2 by (cases ws2) (auto dest: int_isspace_not_body)
  have allJ: "\<forall>x\<in>set ?J. digit_or_underscore x" using J by blast
  note w = while_append [OF allJ hw]
  have h: "hd ?J \<noteq> CHR ''_''" "last ?J \<noteq> CHR ''_''"
    using J by (auto dest: is_digit_not_special(6))
  show ?thesis
    using J h ws2
    by (auto simp: py_int_def d ts w within_digit_limit_def literal_value_def Let_def)
qed

lemma literal_of_py_int:
  assumes "py_int lim s = Some n"
  shows "\<exists>negative groups. decimal_literal s negative groups
    \<and> within_digit_limit lim (length (concat groups))
    \<and> n = literal_value negative groups"
proof -
  define t where "t = dropWhile int_isspace s"
  obtain neg u where u: "take_sign t = (neg, u)" by (cases "take_sign t")
  define body where "body = takeWhile digit_or_underscore u"
  define rest where "rest = dropWhile digit_or_underscore u"
  define groups where "groups = split CHR ''_'' body"
  from assms u have p: "body \<noteq> []" "hd body \<noteq> CHR ''_''" "last body \<noteq> CHR ''_''"
    "\<not> double_underscore body" "list_all int_isspace rest"
    and lim: "\<not> (0 < lim \<and> 640 < length (filter is_digit body)
                \<and> lim < length (filter is_digit body))"
    and n: "n = (if neg then - int (digits_value (filter is_digit body))
                 else int (digits_value (filter is_digit body)))"
    unfolding t_def body_def rest_def
    by (auto simp: py_int_def Let_def split: if_splits)
  have j: "join ''_'' groups = body"
    using join_split_from [of "CHR ''_''" "[]" body] by (simp add: groups_def split_def)
  have ne: "groups \<noteq> []" by (simp add: groups_def split_def split_from_not_Nil)
  have "[] \<notin> set groups"
    unfolding groups_def split_def using p(1,2,3,4)
    by (intro split_from_groups_not_Nil) auto
  moreover have "list_all is_digit g" if "g \<in> set groups" for g
  proof -
    have "set g \<subseteq> set body - {CHR ''_''}"
      using split_from_chars [of g "CHR ''_''" "[]" body] that
      by (simp add: groups_def split_def)
    moreover have "\<forall>x\<in>set body. digit_or_underscore x"
      unfolding body_def by (auto dest: set_takeWhileD)
    ultimately show ?thesis by (auto simp: list_all_iff digit_or_underscore_def)
  qed
  ultimately have good: "list_all (\<lambda>g. g \<noteq> [] \<and> list_all is_digit g) groups"
    by (auto simp: list_all_iff)
  have f: "filter is_digit body = concat groups"
    using join_groups [OF ne good] unfolding j by simp
  have s: "s = takeWhile int_isspace s @ t" by (simp add: t_def)
  have ub: "u = body @ rest" by (simp add: body_def rest_def)
  have ws1: "list_all int_isspace (takeWhile int_isspace s)"
    by (auto simp: list_all_iff dest: set_takeWhileD)
  from take_sign_shape [OF u]
  have "\<exists>sign. t = sign @ u \<and> (if neg then sign = ''-'' else sign = [] \<or> sign = ''+'')"
    by auto
  then obtain sign where sg: "t = sign @ u"
    "if neg then sign = ''-'' else sign = [] \<or> sign = ''+''" by blast
  have "s = takeWhile int_isspace s @ sign @ join ''_'' groups @ rest"
    using s sg(1) ub j by simp
  with ws1 p(5) sg(2) ne good have "decimal_literal s neg groups"
    unfolding decimal_literal_def by blast
  moreover have "within_digit_limit lim (length (concat groups))"
    using lim by (simp add: within_digit_limit_def f)
  moreover have "n = literal_value neg groups" using n by (simp add: literal_value_def f)
  ultimately show ?thesis by blast
qed

text \<open>
  C2 (as amended). Segments are parsed by \<^verbatim>\<open>int()\<close>. A segment parses exactly when it is
  whitespace, at most one leading sign, one or more non-empty groups of decimal digits with
  single underscores between them, whitespace, with no more digits than the interpreter's
  limit allows; it then parses to the value of its digits with its sign. Every other
  segment does not parse (hexadecimal notation, a letter, a sign that is not in front, two
  signs, a sign alone, whitespace inside, an underscore in front, at the end or doubled, the
  empty segment), and when every segment before it is accepted the validator fails with
  the non-numeric error for it.
\<close>

theorem py_int_accepts_exactly_decimal_literals:
  "(py_int lim s = Some n \<longleftrightarrow>
      (\<exists>negative groups. decimal_literal s negative groups
         \<and> within_digit_limit lim (length (concat groups))
         \<and> n = literal_value negative groups))
   \<and> (length (split CHR ''.'' (strip raw)) = 4 \<and> i < 4
      \<and> (\<forall>j<i. byte_ok lim (split CHR ''.'' (strip raw) ! j))
      \<and> \<not> (\<exists>negative groups. decimal_literal (split CHR ''.'' (strip raw) ! i) negative groups
              \<and> within_digit_limit lim (length (concat groups)))
      \<longrightarrow> validate_ip_v4 lim raw = Inl (InvalidType (split CHR ''.'' (strip raw) ! i) raw))"
proof (intro conjI impI iffI)
  assume "py_int lim s = Some n"
  then show "\<exists>negative groups. decimal_literal s negative groups
         \<and> within_digit_limit lim (length (concat groups))
         \<and> n = literal_value negative groups"
    by (rule literal_of_py_int)
next
  assume "\<exists>negative groups. decimal_literal s negative groups
         \<and> within_digit_limit lim (length (concat groups))
         \<and> n = literal_value negative groups"
  then show "py_int lim s = Some n" by (auto simp: py_int_of_literal)
next
  let ?segs = "split CHR ''.'' (strip raw)"
  assume a: "length ?segs = 4 \<and> i < 4
      \<and> (\<forall>j<i. byte_ok lim (?segs ! j))
      \<and> \<not> (\<exists>negative groups. decimal_literal (?segs ! i) negative groups
              \<and> within_digit_limit lim (length (concat groups)))"
  have "py_int lim (?segs ! i) = None"
  proof (cases "py_int lim (?segs ! i)")
    case None
    then show ?thesis .
  next
    case (Some m)
    from literal_of_py_int [OF this] a show ?thesis by blast
  qed
  with a show "validate_ip_v4 lim raw = Inl (InvalidType (?segs ! i) raw)"
    by (intro validate_ip_v4_first_bad) simp_all
qed

theorem py_int_accepts_exactly_decimal_literals_witness:
  "py_int 4300 ''+1'' = Some 1
   \<and> \<not> (\<exists>negative groups. decimal_literal ''1+1'' negative groups
          \<and> within_digit_limit 4300 (length (concat groups)))
   \<and> validate_ip_v4 4300 ''1+1.2.3.4'' = Inl (InvalidType ''1+1'' ''1+1.2.3.4'')"
proof -
  note T = py_int_accepts_exactly_decimal_literals
  have "''+1'' = [] @ ''+'' @ join ''_'' [''1''] @ []" by simp
  then have dl: "decimal_literal ''+1'' False [''1'']"
    unfolding decimal_literal_def
    by (intro exI [of _ "[]"] exI [of _ "''+''"] conjI) (simp_all add: is_digit_def)
  have wl: "within_digit_limit 4300 (length (concat [''1'']))"
    by (simp add: within_digit_limit_def)
  have lv: "1 = literal_value False [''1'']"
    by (simp add: literal_value_def digits_value_def digit_value_def)
  have a: "py_int 4300 ''+1'' = Some 1"
    using T [where lim = 4300 and s = "''+1''" and n = 1] dl wl lv by blast
  have none: "py_int 4300 ''1+1'' = None" by (simp add: int_eval)
  have b: "\<not> (\<exists>negative groups. decimal_literal ''1+1'' negative groups
          \<and> within_digit_limit 4300 (length (concat groups)))"
  proof
    assume "\<exists>negative groups. decimal_literal ''1+1'' negative groups
          \<and> within_digit_limit 4300 (length (concat groups))"
    then obtain neg gs where "decimal_literal ''1+1'' neg gs
          \<and> within_digit_limit 4300 (length (concat gs))" by blast
    then have "py_int 4300 ''1+1'' = Some (literal_value neg gs)"
      using T [where lim = 4300 and s = "''1+1''" and n = "literal_value neg gs"] by blast
    with none show False by simp
  qed
  have segs: "split CHR ''.'' (strip ''1+1.2.3.4'') = [''1+1'', ''2'', ''3'', ''4'']"
    by (simp add: string_eval)
  have c: "validate_ip_v4 4300 ''1+1.2.3.4'' = Inl (InvalidType ''1+1'' ''1+1.2.3.4'')"
    using T [where lim = 4300 and raw = "''1+1.2.3.4''" and i = 0] b by (simp add: segs)
  from a b c show ?thesis by (intro conjI)
qed

text \<open>
  C2 as stated fails: a leading sign, an underscore between digits and whitespace around
  the digits are not plain decimal, and the validator succeeds on each.
\<close>

theorem validate_ip_v4_tolerant_counterexample:
  "hd (hd (split CHR ''.'' (strip ''+1.2.3.4''))) = CHR ''+''
   \<and> validate_ip_v4 4300 ''+1.2.3.4'' = Inr ''1.2.3.4''
   \<and> validate_ip_v4 4300 ''1_0.2.3.4'' = Inr ''10.2.3.4''
   \<and> validate_ip_v4 4300 ''1 .2.3.4'' = Inr ''1.2.3.4''"
  by (simp add: validate_ip_v4_def string_eval int_eval str_eval)

section \<open>Whitespace around the address\<close>

lemma py_int_decimal_byte:
  assumes "decimal_byte lim ds"
  shows "py_int lim ds = Some (int (digits_value ds))" "byte_ok lim ds"
proof -
  from assms have ds: "ds \<noteq> []" "list_all is_digit ds" "within_digit_limit lim (length ds)"
    "digits_value ds \<le> 255"
    by (simp_all add: decimal_byte_def)
  have "ds = [] @ [] @ join ''_'' [ds] @ []" by simp
  then have "decimal_literal ds False [ds]"
    unfolding decimal_literal_def using ds(1,2)
    by (intro exI [of _ "[]"] conjI) simp_all
  from py_int_of_literal [OF this, of lim] ds(3)
  show p: "py_int lim ds = Some (int (digits_value ds))"
    by (simp add: literal_value_def)
  show "byte_ok lim ds" using ds(4) by (simp add: byte_ok_def p)
qed

lemma validate_ip_v4_decimal_bytes:
  assumes "list_all (decimal_byte lim) [sa, sb, sc, sd]"
  shows "validate_ip_v4 lim (join ''.'' [sa, sb, sc, sd]) = Inr (canonical_form [sa, sb, sc, sd])"
proof -
  let ?r = "join ''.'' [sa, sb, sc, sd]"
  from assms have b: "decimal_byte lim sa" "decimal_byte lim sb" "decimal_byte lim sc"
    "decimal_byte lim sd" by simp_all
  then have dig: "list_all is_digit sa" "list_all is_digit sb" "list_all is_digit sc"
    "list_all is_digit sd" and ne: "sa \<noteq> []" "sd \<noteq> []"
    by (simp_all add: decimal_byte_def)
  have nodot: "CHR ''.'' \<notin> set sa" "CHR ''.'' \<notin> set sb" "CHR ''.'' \<notin> set sc"
    "CHR ''.'' \<notin> set sd"
    using dig dot_not_digit by (auto simp: list_all_iff)
  have "hd ?r = hd sa" using ne by simp
  moreover have "is_digit (hd sa)" using ne dig(1) by (cases sa) auto
  ultimately have h: "\<not> py_isspace (hd ?r)" by (simp add: is_digit_not_special)
  have "last ?r = last sd" using ne by simp
  moreover have "is_digit (last sd)"
    using ne dig(4) last_in_set [of sd] by (auto simp: list_all_iff)
  ultimately have l: "\<not> py_isspace (last ?r)" by (simp add: is_digit_not_special)
  have "?r \<noteq> []" using ne by simp
  then have s: "strip ?r = ?r" using h l by (rule strip_id)
  have sp: "split CHR ''.'' (strip ?r) = [sa, sb, sc, sd]"
    unfolding s using split_join4 [OF nodot] by simp
  show ?thesis
    unfolding validate_ip_v4_Inr_iff sp using b
    by (simp add: py_int_decimal_byte canonical_form_def str_int_def)
qed

text \<open>
  C8. Take four segments in plain decimal, each denoting a value of at most 255, joined by
  dots, with any whitespace before and after. The validator succeeds on that string and
  returns the canonical form of the address: the four values in decimal without leading
  zeros, joined by dots. More generally, padding with whitespace never changes a successful
  result of the validator. The resolver, given a response with status 200 whose text is the
  padded string, returns the canonical form: the text goes to the validator as it is, with
  no decoding in between.
\<close>

theorem whitespace_trimmed_before_validation:
  assumes "list_all (decimal_byte (int_max_str_digits w)) [sa, sb, sc, sd]"
    and "list_all py_isspace ws" and "list_all py_isspace ws'"
  shows "validate_ip_v4 (int_max_str_digits w) (ws @ join ''.'' [sa, sb, sc, sd] @ ws')
           = Inr (canonical_form [sa, sb, sc, sd])
    \<and> (\<forall>s r. validate_ip_v4 (int_max_str_digits w) s = Inr r
          \<longrightarrow> validate_ip_v4 (int_max_str_digits w) (ws @ s @ ws') = Inr r)
    \<and> (\<forall>resp t. requests_get w ''https://api.ipify.org'' = Inr resp
          \<and> status_code resp = 200
          \<and> response_text resp = ws @ join ''.'' [sa, sb, sc, sd] @ ws'
        \<longrightarrow> fst (get_public_ip_v4 w t) = Inr (canonical_form [sa, sb, sc, sd]))"
proof -
  have pad: "validate_ip_v4 (int_max_str_digits w) (ws @ s @ ws') = Inr r"
    if "validate_ip_v4 (int_max_str_digits w) s = Inr r" for s r
    using that unfolding validate_ip_v4_Inr_iff strip_surround [OF assms(2,3)] .
  have v: "validate_ip_v4 (int_max_str_digits w) (ws @ join ''.'' [sa, sb, sc, sd] @ ws')
           = Inr (canonical_form [sa, sb, sc, sd])"
    using validate_ip_v4_decimal_bytes [OF assms(1)] by (rule pad)
  have "fst (get_public_ip_v4 w t) = Inr (canonical_form [sa, sb, sc, sd])"
    if "requests_get w ''https://api.ipify.org'' = Inr resp \<and> status_code resp = 200
        \<and> response_text resp = ws @ join ''.'' [sa, sb, sc, sd] @ ws'" for resp t
    using that v
    by (simp add: get_public_ip_v4_def and_then_def remote_call_def raise_for_status_def
        returns_def outcome_def)
  with v pad show ?thesis by blast
qed

theorem whitespace_trimmed_before_validation_witness:
  "validate_ip_v4 4300 (''  010.0.0.1'' @ [CHR 0x0A]) = Inr ''10.0.0.1''
   \<and> fst (get_public_ip_v4 (example_world (''  010.0.0.1'' @ [CHR 0x0A]) [] []) [])
       = Inr ''10.0.0.1''"
proof -
  let ?w = "example_world (''  010.0.0.1'' @ [CHR 0x0A]) [] []"
  have lim: "int_max_str_digits ?w = 4300" by (simp add: example_world_def)
  have b: "list_all (decimal_byte (int_max_str_digits ?w)) [''010'', ''0'', ''0'', ''1'']"
    unfolding lim
    by (simp add: decimal_byte_def is_digit_def within_digit_limit_def digits_value_def
        digit_value_def)
  have sp: "list_all py_isspace ''  ''" "list_all py_isspace [CHR 0x0A]"
    by (simp_all add: py_isspace_def)
  have c: "canonical_form [''010'', ''0'', ''0'', ''1''] = ''10.0.0.1''"
    by (simp add: canonical_form_def digits_value_def digit_value_def str_nat.simps
        digit_char_def)
  have r: "requests_get ?w ''https://api.ipify.org''
      = Inr \<lparr>status_code = 200, response_text = ''  010.0.0.1'' @ [CHR 0x0A]\<rparr>"
    by (simp add: example_world_def)
  from whitespace_trimmed_before_validation [OF b sp] r show ?thesis
    unfolding lim c by simp
qed

section \<open>A trailing dot\<close>

lemma dot_not_space: "\<not> py_isspace CHR ''.''"
  by (simp add: py_isspace_def)

lemma strip_trailing_dot:
  assumes "dropWhile py_isspace a \<noteq> []"
  shows "strip (a @ CHR ''.'' # m @ ''.'') = dropWhile py_isspace a @ CHR ''.'' # m @ ''.''"
proof -
  let ?a' = "dropWhile py_isspace a"
  let ?s = "?a' @ CHR ''.'' # m @ ''.''"
  have e: "takeWhile py_isspace a @ ?s @ [] = a @ CHR ''.'' # m @ ''.''"
    using takeWhile_dropWhile_id [of py_isspace a] by (metis append.assoc append_Nil2)
  have ws: "list_all py_isspace (takeWhile py_isspace a)"
    by (auto simp: list_all_iff dest: set_takeWhileD)
  have nil: "list_all py_isspace []" by simp
  have "strip (a @ CHR ''.'' # m @ ''.'') = strip ?s"
    using strip_surround [OF ws nil, of ?s] unfolding e .
  moreover have "strip ?s = ?s"
  proof (rule strip_id)
    show "?s \<noteq> []" by simp
    show "\<not> py_isspace (hd ?s)" using assms hd_dropWhile [of py_isspace a] by simp
    show "\<not> py_isspace (last ?s)" by (simp add: dot_not_space)
  qed
  ultimately show ?thesis by simp
qed

text \<open>
  C10. Three accepted segments followed by a trailing dot: the split gives four segments,
  the last one empty, and the validator fails with the non-numeric error for the empty
  segment, not with the segment-count error.
\<close>

theorem validate_ip_v4_trailing_dot:
  assumes "byte_ok lim a" "byte_ok lim b" "byte_ok lim c"
    and "CHR ''.'' \<notin> set a" "CHR ''.'' \<notin> set b" "CHR ''.'' \<notin> set c"
  shows "split CHR ''.'' (strip (a @ ''.'' @ b @ ''.'' @ c @ ''.''))
           = [dropWhile py_isspace a, b, c, []]
    \<and> validate_ip_v4 lim (a @ ''.'' @ b @ ''.'' @ c @ ''.'')
           = Inl (InvalidType [] (a @ ''.'' @ b @ ''.'' @ c @ ''.''))"
proof -
  define raw where "raw = a @ ''.'' @ b @ ''.'' @ c @ ''.''"
  let ?a' = "dropWhile py_isspace a"
  note a' = byte_ok_lstrip [OF assms(1)]
  have nd: "CHR ''.'' \<notin> set ?a'" using assms(4) by (auto dest: set_dropWhileD)
  have "strip raw = ?a' @ CHR ''.'' # (b @ CHR ''.'' # c) @ ''.''"
    unfolding raw_def using strip_trailing_dot [OF a'(2), of "b @ CHR ''.'' # c"] by simp
  then have segs: "split CHR ''.'' (strip raw) = [?a', b, c, []]"
    using nd assms(5,6) by (simp add: split_def split_from_sep)
  have ok: "\<forall>j<3. byte_ok lim ([?a', b, c, []] ! j)"
    using a'(1) assms(2,3) by (simp add: numeral_3_eq_3 less_Suc_eq)
  have "validate_ip_v4 lim raw = Inl (InvalidType (split CHR ''.'' (strip raw) ! 3) raw)"
  proof (rule validate_ip_v4_first_bad)
    show "length (split CHR ''.'' (strip raw)) = 4" unfolding segs by simp
    show "3 < (4::nat)" by simp
    show "\<forall>j<3. byte_ok lim (split CHR ''.'' (strip raw) ! j)" unfolding segs by (rule ok)
    show "py_int lim (split CHR ''.'' (strip raw) ! 3) = None"
      unfolding segs by (simp add: py_int_empty)
  qed
  then have "validate_ip_v4 lim raw = Inl (InvalidType [] raw)" unfolding segs by simp
  with segs show ?thesis unfolding raw_def by (rule conjI)
qed

theorem validate_ip_v4_trailing_dot_witness:
  "split CHR ''.'' (strip ''1.2.3.'') = [''1'', ''2'', ''3'', '''']
   \<and> validate_ip_v4 4300 ''1.2.3.'' = Inl (InvalidType '''' ''1.2.3.'')"
proof -
  have ok: "byte_ok 4300 ''1''" "byte_ok 4300 ''2''" "byte_ok 4300 ''3''"
    by (simp_all add: byte_ok_def int_eval)
  have nd: "CHR ''.'' \<notin> set ''1''" "CHR ''.'' \<notin> set ''2''" "CHR ''.'' \<notin> set ''3''"
    by simp_all
  have "dropWhile py_isspace ''1'' = ''1''" by (simp add: py_isspace_def)
  with validate_ip_v4_trailing_dot [OF ok nd] show ?thesis by simp
qed


section \<open>Events of a run\<close>

lemma criticals_append: "criticals (a @ b) = criticals a @ criticals b"
  by (induction a rule: criticals.induct) simp_all

lemma upserts_append: "upserts (a @ b) = upserts a @ upserts b"
  by (induction a rule: upserts.induct) simp_all

lemmas run_defs = and_then_def logger_def outcome_def returns_def remote_call_def
  next_filter_def raise_for_status_def

lemma no_critical_and_then:
  "no_critical m \<Longrightarrow> (\<And>v. no_critical (f v)) \<Longrightarrow> no_critical (and_then m f)"
  by (auto simp: no_critical_def and_then_def split: prod.splits sum.splits)
    (metis snd_conv)+


lemma no_critical_simple:
  "no_critical (returns v)" "no_critical (outcome r)"
  "l \<noteq> CRITICAL \<Longrightarrow> no_critical (logger l msg)"
  "no_critical (remote_call (HttpGet url) r1)"
  "no_critical (remote_call ListHostedZonesByName r2)"
  "no_critical (remote_call (ListResourceRecordSets z) r3)"
  "no_critical (remote_call (ChangeResourceRecordSets req) r4)"
  "no_critical (next_filter p xs)"
  "no_critical (raise_for_status resp)"
  by (cases l; simp add: no_critical_def run_defs criticals_append)+

lemma no_critical_get_public_ip_v4: "no_critical (get_public_ip_v4 w)"
  unfolding get_public_ip_v4_def
  by (intro no_critical_and_then no_critical_simple)

lemma no_critical_update: "no_critical (update_route_53_record_set cl z n ty ttl v)"
  unfolding update_route_53_record_set_def Let_def
  by (intro no_critical_simple)

lemma no_critical_main_body: "no_critical (main_body w)"
  unfolding main_body_def
  by (intro no_critical_and_then no_critical_simple no_critical_get_public_ip_v4
      no_critical_update) simp_all

lemma criticals_main_body: "criticals (snd (main_body w [])) = []"
  using no_critical_main_body [of w] by (simp add: no_critical_def)

lemma update_route_53_record_set_request:
  "update_route_53_record_set cl z n ty ttl v t =
     (change_resource_record_sets cl (upsert_request z n ty ttl v),
      t @ [ChangeResourceRecordSets (upsert_request z n ty ttl v)])"
  by (simp add: update_route_53_record_set_def upsert_request_def remote_call_def Let_def)

lemma get_public_ip_v4_events:
  "snd (get_public_ip_v4 w t) = t @ [HttpGet ''https://api.ipify.org'']"
  by (simp add: get_public_ip_v4_def run_defs split: sum.splits)

lemma get_public_ip_v4_ok:
  assumes "requests_get w ''https://api.ipify.org'' = Inr resp"
    "\<not> (400 \<le> status_code resp \<and> status_code resp < 600)"
    "validate_ip_v4 (int_max_str_digits w) (response_text resp) = Inr ip"
  shows "get_public_ip_v4 w t = (Inr ip, t @ [HttpGet ''https://api.ipify.org''])"
  using assms by (simp add: get_public_ip_v4_def run_defs)

lemma find_filter_hd:
  "find P xs = (case filter P xs of [] \<Rightarrow> None | x # _ \<Rightarrow> Some x)"
  by (induction xs) auto

text \<open>The run stops where the first stage fails.\<close>

lemma main_body_load_fails:
  "load_record_info w = Inl e \<Longrightarrow> main_body w [] = (Inl e, [Log INFO Running])"
  by (simp add: main_body_def run_defs)

lemma main_body_ip_fails:
  assumes "load_record_info w = Inr ri" "get_public_ip_v4 w [Log INFO Running] = (Inl e, t)"
  shows "main_body w [] = (Inl e, t)"
  using assms by (simp add: main_body_def and_then_def logger_def outcome_def)

lemma main_body_zone_missing:
  assumes "load_record_info w = Inr ri" "get_public_ip_v4 w [Log INFO Running] = (Inr ip, t)"
    "get_route_53_client w = Inr cl" "list_hosted_zones_by_name cl = Inr zones"
    "find (\<lambda>hz. zone_Name hz = target_hosted_zone_name ri) zones = None"
  shows "main_body w [] = (Inl StopIteration,
           t @ [Log INFO (IPv4_is ip), ListHostedZonesByName,
                Log DEBUG (Found_hosted_zones (length zones))])"
  using assms by (simp add: main_body_def run_defs)

text \<open>The run whose stages succeed as far as the listing of the record sets.\<close>

lemma main_body_located:
  assumes "load_record_info w = Inr ri" "get_public_ip_v4 w [Log INFO Running] = (Inr ip, t)"
    "get_route_53_client w = Inr cl" "list_hosted_zones_by_name cl = Inr zones"
    "find (\<lambda>hz. zone_Name hz = target_hosted_zone_name ri) zones = Some z"
    "list_resource_record_sets cl (zone_Id z) = Inr rsets"
  shows "main_body w [] =
    (let req = upsert_request (zone_Id z) (target_record_set_name ri)
                 (target_record_set_type ri) (target_record_set_ttl ri) ip;
         sent = t @ [Log INFO (IPv4_is ip), ListHostedZonesByName,
                  Log DEBUG (Found_hosted_zones (length zones)),
                  Log INFO (Target_hosted_zone_is z),
                  ListResourceRecordSets (zone_Id z),
                  Log DEBUG (Found_record_sets (length rsets)),
                  Log INFO (Target_record_set_is
                    (find (\<lambda>r. Name r = target_record_set_name ri) rsets)),
                  ChangeResourceRecordSets req]
     in case change_resource_record_sets cl req of
          Inl e \<Rightarrow> (Inl e, sent)
        | Inr u \<Rightarrow> (Inr (), sent @ [Log INFO Target_record_set_updated]))"
  using assms
  by (simp add: main_body_def run_defs update_route_53_record_set_request Let_def
      split: sum.splits)

lemma main_events:
  "events (main w) =
     (case main_body w [] of
        (Inl e, t) \<Rightarrow> t @ [Log CRITICAL (Unhandled_exception e)]
      | (Inr u, t) \<Rightarrow> t)"
  by (simp add: main_def run_script_def try_except_def logger_def
      split: prod.splits sum.splits)

lemma main_exit_status: "exit_status (main w) = 0"
  by (simp add: main_def run_script_def try_except_def logger_def
      split: prod.splits sum.splits)


section \<open>The example world\<close>

lemma example_ip: "validate_ip_v4 4300 ''203.0.113.7'' = Inr ''203.0.113.7''"
  by (simp add: validate_ip_v4_def string_eval int_eval str_eval)

lemma example_resolver:
  "get_public_ip_v4 (example_world ''203.0.113.7'' zones rsets) t
     = (Inr ''203.0.113.7'', t @ [HttpGet ''https://api.ipify.org''])"
  by (rule get_public_ip_v4_ok [where resp = "\<lparr>status_code = 200, response_text = ''203.0.113.7''\<rparr>"])
    (simp_all add: example_world_def example_ip)

lemmas example_defs = example_world_def example_client_def

section \<open>Failure of a run\<close>

text \<open>
  C3 (as amended). Every run ends with exit status 0. A run in which a stage raises an
  error logs exactly one line at level CRITICAL, its last line, and that line carries the
  error; a run in which every stage succeeds logs no line at level CRITICAL.
\<close>

theorem main_logs_failure_and_exits_zero:
  "exit_status (main w) = 0
   \<and> (\<forall>e t. main_body w [] = (Inl e, t) \<longrightarrow>
         events (main w) = t @ [Log CRITICAL (Unhandled_exception e)]
         \<and> criticals (events (main w)) = [Unhandled_exception e])
   \<and> (\<forall>t. main_body w [] = (Inr (), t) \<longrightarrow>
         events (main w) = t \<and> criticals (events (main w)) = [])"
proof (intro conjI allI impI)
  show "exit_status (main w) = 0" by (rule main_exit_status)
next
  fix e t assume a: "main_body w [] = (Inl e, t)"
  then show "events (main w) = t @ [Log CRITICAL (Unhandled_exception e)]"
    by (simp add: main_events)
  from a criticals_main_body [of w] have "criticals t = []" by simp
  with a show "criticals (events (main w)) = [Unhandled_exception e]"
    by (simp add: main_events criticals_append)
next
  fix t assume a: "main_body w [] = (Inr (), t)"
  then show "events (main w) = t" by (simp add: main_events)
  from a criticals_main_body [of w] show "criticals (events (main w)) = []"
    by (simp add: main_events)
qed

theorem main_logs_failure_and_exits_zero_witness:
  "fst (main_body (example_world ''203.0.113.7'' [] []) []) = Inl StopIteration
   \<and> criticals (events (main (example_world ''203.0.113.7'' [] [])))
        = [Unhandled_exception StopIteration]
   \<and> exit_status (main (example_world ''203.0.113.7'' [] [])) = 0"
proof -
  let ?w = "example_world ''203.0.113.7'' [] []"
  have b: "main_body ?w [] = (Inl StopIteration,
      [Log INFO Running, HttpGet ''https://api.ipify.org''] @
      [Log INFO (IPv4_is ''203.0.113.7''), ListHostedZonesByName,
       Log DEBUG (Found_hosted_zones (length ([] :: hosted_zone list)))])"
    by (rule main_body_zone_missing [where cl = "example_client [] []"])
      (simp_all add: example_resolver, simp_all add: example_defs)
  with main_logs_failure_and_exits_zero [of ?w] show ?thesis by simp
qed

text \<open>
  C3 as stated fails: in the example world with no hosted zone the zone lookup raises
  \<^verbatim>\<open>StopIteration\<close>, and the exit status of the run is 0.
\<close>

theorem main_failure_exit_status_counterexample:
  "fst (main_body (example_world ''203.0.113.7'' [] []) []) = Inl StopIteration
   \<and> \<not> exit_status (main (example_world ''203.0.113.7'' [] [])) \<noteq> 0"
proof -
  let ?w = "example_world ''203.0.113.7'' [] []"
  have b: "main_body ?w [] = (Inl StopIteration,
      [Log INFO Running, HttpGet ''https://api.ipify.org''] @
      [Log INFO (IPv4_is ''203.0.113.7''), ListHostedZonesByName,
       Log DEBUG (Found_hosted_zones (length ([] :: hosted_zone list)))])"
    by (rule main_body_zone_missing [where cl = "example_client [] []"])
      (simp_all add: example_resolver, simp_all add: example_defs)
  then show ?thesis by (simp add: main_exit_status)
qed

section \<open>The hosted zone is not found\<close>

text \<open>
  C4. When no listed hosted zone has the configured name, the run sends no upsert request;
  and when the stages before the lookup succeed, the lookup raises \<^verbatim>\<open>StopIteration\<close> (the
  failure the specification calls \<^verbatim>\<open>NotFoundError\<close>), which ends the run right after the
  listing of the zones, with the one CRITICAL line for it.
\<close>

theorem zone_not_found_aborts_before_upsert:
  assumes "load_record_info w = Inr ri" "get_route_53_client w = Inr cl"
    "list_hosted_zones_by_name cl = Inr zones"
    "\<forall>hz\<in>set zones. zone_Name hz \<noteq> target_hosted_zone_name ri"
  shows "upserts (events (main w)) = []
    \<and> (\<forall>ip t. get_public_ip_v4 w [Log INFO Running] = (Inr ip, t) \<longrightarrow>
          main_body w [] = (Inl StopIteration,
            t @ [Log INFO (IPv4_is ip), ListHostedZonesByName,
                 Log DEBUG (Found_hosted_zones (length zones))])
          \<and> events (main w) =
            t @ [Log INFO (IPv4_is ip), ListHostedZonesByName,
                 Log DEBUG (Found_hosted_zones (length zones)),
                 Log CRITICAL (Unhandled_exception StopIteration)])"
proof -
  have none: "find (\<lambda>hz. zone_Name hz = target_hosted_zone_name ri) zones = None"
    using assms(4) by (simp add: find_None_iff)
  have ok: "main_body w [] = (Inl StopIteration,
            t @ [Log INFO (IPv4_is ip), ListHostedZonesByName,
                 Log DEBUG (Found_hosted_zones (length zones))])"
    if "get_public_ip_v4 w [Log INFO Running] = (Inr ip, t)" for ip t
    using assms(1) that assms(2,3) none by (rule main_body_zone_missing)
  have t: "t = [Log INFO Running, HttpGet ''https://api.ipify.org'']"
    if "get_public_ip_v4 w [Log INFO Running] = (r, t)" for r t
    using get_public_ip_v4_events [of w "[Log INFO Running]"] that by simp
  have "upserts (events (main w)) = []"
  proof (cases "get_public_ip_v4 w [Log INFO Running]")
    case (Pair r t')
    show ?thesis
    proof (cases r)
      case (Inl e)
      with Pair have "main_body w [] = (Inl e, t')"
        using main_body_ip_fails [OF assms(1)] by simp
      then show ?thesis using t [OF Pair] by (simp add: main_events)
    next
      case (Inr ip)
      with Pair ok [of ip t'] t [OF Pair] show ?thesis by (simp add: main_events)
    qed
  qed
  moreover have "events (main w) =
            t @ [Log INFO (IPv4_is ip), ListHostedZonesByName,
                 Log DEBUG (Found_hosted_zones (length zones)),
                 Log CRITICAL (Unhandled_exception StopIteration)]"
    if "get_public_ip_v4 w [Log INFO Running] = (Inr ip, t)" for ip t
    using ok [OF that] by (simp add: main_events)
  ultimately show ?thesis using ok by blast
qed

theorem zone_not_found_aborts_before_upsert_witness:
  "upserts (events (main (example_world ''203.0.113.7''
      [\<lparr>zone_Id = ''/hostedzone/Z1'', zone_Name = ''example.org.''\<rparr>] []))) = []
   \<and> events (main (example_world ''203.0.113.7''
      [\<lparr>zone_Id = ''/hostedzone/Z1'', zone_Name = ''example.org.''\<rparr>] [])) =
      [Log INFO Running, HttpGet ''https://api.ipify.org'',
       Log INFO (IPv4_is ''203.0.113.7''), ListHostedZonesByName,
       Log DEBUG (Found_hosted_zones 1),
       Log CRITICAL (Unhandled_exception StopIteration)]"
proof -
  let ?zones = "[\<lparr>zone_Id = ''/hostedzone/Z1'', zone_Name = ''example.org.''\<rparr>]"
  let ?w = "example_world ''203.0.113.7'' ?zones []"
  let ?ri = "\<lparr>target_hosted_zone_name = ''example.com.'',
         target_record_set_name = ''home.example.com.'',
         target_record_set_type = ''A'',
         target_record_set_ttl = 300\<rparr>"
  have h: "load_record_info ?w = Inr ?ri" "get_route_53_client ?w = Inr (example_client ?zones [])"
    "list_hosted_zones_by_name (example_client ?zones []) = Inr ?zones"
    "\<forall>hz\<in>set ?zones. zone_Name hz \<noteq> target_hosted_zone_name ?ri"
    by (simp_all add: example_defs)
  from zone_not_found_aborts_before_upsert [OF h] example_resolver [of ?zones "[]"]
  show ?thesis by simp
qed

section \<open>The record set is absent\<close>

text \<open>
  C5. When exactly one listed hosted zone has the configured name and no listed record set
  has the configured record name, the run logs that zone and an absent record, raises
  nothing for the absence, and sends exactly one upsert request, for that zone's id and
  with the resolved address as its one value. The events of the run are given in full; only
  the last one depends on whether the provider accepts the request.
\<close>

theorem record_absent_still_upserts:
  assumes "load_record_info w = Inr ri"
    and "fst (get_public_ip_v4 w [Log INFO Running]) = Inr ip"
    and "get_route_53_client w = Inr cl"
    and "list_hosted_zones_by_name cl = Inr zones"
    and "filter (\<lambda>hz. zone_Name hz = target_hosted_zone_name ri) zones = [z]"
    and "list_resource_record_sets cl (zone_Id z) = Inr rsets"
    and "\<forall>r\<in>set rsets. Name r \<noteq> target_record_set_name ri"
  shows "events (main w) =
      [Log INFO Running, HttpGet ''https://api.ipify.org'', Log INFO (IPv4_is ip),
       ListHostedZonesByName, Log DEBUG (Found_hosted_zones (length zones)),
       Log INFO (Target_hosted_zone_is z),
       ListResourceRecordSets (zone_Id z), Log DEBUG (Found_record_sets (length rsets)),
       Log INFO (Target_record_set_is None),
       ChangeResourceRecordSets (upsert_request (zone_Id z) (target_record_set_name ri)
         (target_record_set_type ri) (target_record_set_ttl ri) ip)]
      @ (case change_resource_record_sets cl (upsert_request (zone_Id z)
                (target_record_set_name ri) (target_record_set_type ri)
                (target_record_set_ttl ri) ip) of
           Inl e \<Rightarrow> [Log CRITICAL (Unhandled_exception e)]
         | Inr u \<Rightarrow> [Log INFO Target_record_set_updated])
    \<and> upserts (events (main w)) =
        [upsert_request (zone_Id z) (target_record_set_name ri)
           (target_record_set_type ri) (target_record_set_ttl ri) ip]
    \<and> map (\<lambda>ch. map Value (ResourceRecords (ResourceRecordSet ch)))
        (Changes (ChangeBatch (upsert_request (zone_Id z) (target_record_set_name ri)
           (target_record_set_type ri) (target_record_set_ttl ri) ip))) = [[ip]]"
proof -
  let ?req = "upsert_request (zone_Id z) (target_record_set_name ri)
         (target_record_set_type ri) (target_record_set_ttl ri) ip"
  have ip: "get_public_ip_v4 w [Log INFO Running]
      = (Inr ip, [Log INFO Running, HttpGet ''https://api.ipify.org''])"
    using assms(2) get_public_ip_v4_events [of w "[Log INFO Running]"]
    by (cases "get_public_ip_v4 w [Log INFO Running]") simp
  have zone: "find (\<lambda>hz. zone_Name hz = target_hosted_zone_name ri) zones = Some z"
    using assms(5) by (simp add: find_filter_hd)
  have absent: "find (\<lambda>r. Name r = target_record_set_name ri) rsets = None"
    using assms(7) by (simp add: find_None_iff)
  note body = main_body_located [OF assms(1) ip assms(3,4) zone assms(6), unfolded absent]
  have ev: "events (main w) =
      [Log INFO Running, HttpGet ''https://api.ipify.org'', Log INFO (IPv4_is ip),
       ListHostedZonesByName, Log DEBUG (Found_hosted_zones (length zones)),
       Log INFO (Target_hosted_zone_is z),
       ListResourceRecordSets (zone_Id z), Log DEBUG (Found_record_sets (length rsets)),
       Log INFO (Target_record_set_is None), ChangeResourceRecordSets ?req]
      @ (case change_resource_record_sets cl ?req of
           Inl e \<Rightarrow> [Log CRITICAL (Unhandled_exception e)]
         | Inr u \<Rightarrow> [Log INFO Target_record_set_updated])"
    by (simp add: main_events body Let_def split: sum.splits)
  have up: "upserts (events (main w)) = [?req]"
    unfolding ev by (simp split: sum.splits)
  have val: "map (\<lambda>ch. map Value (ResourceRecords (ResourceRecordSet ch)))
        (Changes (ChangeBatch ?req)) = [[ip]]"
    by (simp add: upsert_request_def)
  from ev up val show ?thesis by (intro conjI)
qed

theorem record_absent_still_upserts_witness:
  "events (main (example_world ''203.0.113.7''
      [\<lparr>zone_Id = ''/hostedzone/Z1'', zone_Name = ''example.com.''\<rparr>] [])) =
      [Log INFO Running, HttpGet ''https://api.ipify.org'',
       Log INFO (IPv4_is ''203.0.113.7''), ListHostedZonesByName,
       Log DEBUG (Found_hosted_zones 1),
       Log INFO (Target_hosted_zone_is
         \<lparr>zone_Id = ''/hostedzone/Z1'', zone_Name = ''example.com.''\<rparr>),
       ListResourceRecordSets ''/hostedzone/Z1'', Log DEBUG (Found_record_sets 0),
       Log INFO (Target_record_set_is None),
       ChangeResourceRecordSets
         (upsert_request ''/hostedzone/Z1'' ''home.example.com.'' ''A'' 300 ''203.0.113.7''),
       Log INFO Target_record_set_updated]"
proof -
  let ?z = "\<lparr>zone_Id = ''/hostedzone/Z1'', zone_Name = ''example.com.''\<rparr>"
  let ?w = "example_world ''203.0.113.7'' [?z] []"
  let ?ri = "\<lparr>target_hosted_zone_name = ''example.com.'',
         target_record_set_name = ''home.example.com.'',
         target_record_set_type = ''A'',
         target_record_set_ttl = 300\<rparr>"
  have h: "load_record_info ?w = Inr ?ri"
    "fst (get_public_ip_v4 ?w [Log INFO Running]) = Inr ''203.0.113.7''"
    "get_route_53_client ?w = Inr (example_client [?z] [])"
    "list_hosted_zones_by_name (example_client [?z] []) = Inr [?z]"
    "filter (\<lambda>hz. zone_Name hz = target_hosted_zone_name ?ri) [?z] = [?z]"
    "list_resource_record_sets (example_client [?z] []) (zone_Id ?z) = Inr []"
    "\<forall>r\<in>set ([] :: resource_record_set list). Name r \<noteq> target_record_set_name ?ri"
    by (simp_all add: example_resolver, simp_all add: example_defs)
  from record_absent_still_upserts [OF h] show ?thesis
    by (simp add: example_client_def)
qed

section \<open>The upsert\<close>

text \<open>
  C9. Every call of \<^verbatim>\<open>update_route_53_record_set\<close> sends exactly one request, whatever the
  client and the events before: for the given zone, with one change, of action
  \<^verbatim>\<open>UPSERT\<close>, whose record set has the given name, type and TTL and one resource record
  holding the given value. In a run that reaches the upsert, the request sent is the same
  whatever record sets the zone already lists: nothing is compared with them.
\<close>

theorem update_route_53_record_set_single_upsert:
  "update_route_53_record_set cl z n ty ttl v t =
      (change_resource_record_sets cl (upsert_request z n ty ttl v),
       t @ [ChangeResourceRecordSets (upsert_request z n ty ttl v)])
   \<and> upserts (snd (update_route_53_record_set cl z n ty ttl v t))
        = upserts t @ [upsert_request z n ty ttl v]
   \<and> HostedZoneId (upsert_request z n ty ttl v) = z
   \<and> map (\<lambda>ch. (Action ch, Name (ResourceRecordSet ch), Type (ResourceRecordSet ch),
             TTL (ResourceRecordSet ch), map Value (ResourceRecords (ResourceRecordSet ch))))
        (Changes (ChangeBatch (upsert_request z n ty ttl v)))
        = [(''UPSERT'', n, ty, ttl, [v])]
   \<and> (load_record_info w = Inr ri
        \<and> fst (get_public_ip_v4 w [Log INFO Running]) = Inr ip
        \<and> get_route_53_client w = Inr cl'
        \<and> list_hosted_zones_by_name cl' = Inr zones
        \<and> find (\<lambda>hz. zone_Name hz = target_hosted_zone_name ri) zones = Some z'
        \<and> list_resource_record_sets cl' (zone_Id z') = Inr rsets
      \<longrightarrow> upserts (events (main w)) =
            [upsert_request (zone_Id z') (target_record_set_name ri)
               (target_record_set_type ri) (target_record_set_ttl ri) ip])"
proof (intro conjI impI)
  show "update_route_53_record_set cl z n ty ttl v t =
      (change_resource_record_sets cl (upsert_request z n ty ttl v),
       t @ [ChangeResourceRecordSets (upsert_request z n ty ttl v)])"
    by (rule update_route_53_record_set_request)
  show "upserts (snd (update_route_53_record_set cl z n ty ttl v t))
        = upserts t @ [upsert_request z n ty ttl v]"
    by (simp add: update_route_53_record_set_request upserts_append)
  show "HostedZoneId (upsert_request z n ty ttl v) = z"
    by (simp add: upsert_request_def)
  show "map (\<lambda>ch. (Action ch, Name (ResourceRecordSet ch), Type (ResourceRecordSet ch),
             TTL (ResourceRecordSet ch), map Value (ResourceRecords (ResourceRecordSet ch))))
        (Changes (ChangeBatch (upsert_request z n ty ttl v)))
        = [(''UPSERT'', n, ty, ttl, [v])]"
    by (simp add: upsert_request_def)
next
  assume a: "load_record_info w = Inr ri
        \<and> fst (get_public_ip_v4 w [Log INFO Running]) = Inr ip
        \<and> get_route_53_client w = Inr cl'
        \<and> list_hosted_zones_by_name cl' = Inr zones
        \<and> find (\<lambda>hz. zone_Name hz = target_hosted_zone_name ri) zones = Some z'
        \<and> list_resource_record_sets cl' (zone_Id z') = Inr rsets"
  then have ip: "get_public_ip_v4 w [Log INFO Running]
      = (Inr ip, [Log INFO Running, HttpGet ''https://api.ipify.org''])"
    using get_public_ip_v4_events [of w "[Log INFO Running]"]
    by (cases "get_public_ip_v4 w [Log INFO Running]") simp
  from a have h: "load_record_info w = Inr ri" "get_route_53_client w = Inr cl'"
    "list_hosted_zones_by_name cl' = Inr zones"
    "find (\<lambda>hz. zone_Name hz = target_hosted_zone_name ri) zones = Some z'"
    "list_resource_record_sets cl' (zone_Id z') = Inr rsets"
    by simp_all
  note body = main_body_located [OF h(1) ip h(2,3,4,5)]
  show "upserts (events (main w)) =
            [upsert_request (zone_Id z') (target_record_set_name ri)
               (target_record_set_type ri) (target_record_set_ttl ri) ip]"
    by (simp add: main_events body Let_def upserts_append split: sum.splits)
qed

theorem update_route_53_record_set_single_upsert_witness:
  "upserts (events (main (example_world ''203.0.113.7''
      [\<lparr>zone_Id = ''/hostedzone/Z1'', zone_Name = ''example.com.''\<rparr>]
      [\<lparr>Name = ''home.example.com.'', Type = ''A'', TTL = 300,
        ResourceRecords = [\<lparr>Value = ''203.0.113.7''\<rparr>]\<rparr>])))
    = [upsert_request ''/hostedzone/Z1'' ''home.example.com.'' ''A'' 300 ''203.0.113.7'']"
proof -
  let ?z = "\<lparr>zone_Id = ''/hostedzone/Z1'', zone_Name = ''example.com.''\<rparr>"
  let ?rs = "[\<lparr>Name = ''home.example.com.'', Type = ''A'', TTL = 300,
        ResourceRecords = [\<lparr>Value = ''203.0.113.7''\<rparr>]\<rparr>]"
  let ?w = "example_world ''203.0.113.7'' [?z] ?rs"
  let ?ri = "\<lparr>target_hosted_zone_name = ''example.com.'',
         target_record_set_name = ''home.example.com.'',
         target_record_set_type = ''A'',
         target_record_set_ttl = 300\<rparr>"
  have h: "load_record_info ?w = Inr ?ri
        \<and> fst (get_public_ip_v4 ?w [Log INFO Running]) = Inr ''203.0.113.7''
        \<and> get_route_53_client ?w = Inr (example_client [?z] ?rs)
        \<and> list_hosted_zones_by_name (example_client [?z] ?rs) = Inr [?z]
        \<and> find (\<lambda>hz. zone_Name hz = target_hosted_zone_name ?ri) [?z] = Some ?z
        \<and> list_resource_record_sets (example_client [?z] ?rs) (zone_Id ?z) = Inr ?rs"
    by (simp add: example_resolver, simp add: example_defs)
  with update_route_53_record_set_single_upsert
    [of "example_client [?z] ?rs" "''''" "''''" "''''" 0 "''''" "[]" ?w ?ri "''203.0.113.7''"
        "example_client [?z] ?rs" "[?z]" ?z ?rs]
  show ?thesis by simp
qed

end
